theory Spec2Isabelle
  imports Main
begin

section \<open>The chunker (db/db.go: IndexChunk, chunkSlice)\<close>

text \<open>
  Go's \<open>int\<close> is a 64-bit two's complement integer on the platforms the tool is built
  for. Values are kept as \<open>int\<close> and every addition of the source is followed by
  \<open>wrap_int64\<close>, which is what the machine addition does.
\<close>

definition wrap_int64 :: "int \<Rightarrow> int" where
  "wrap_int64 x = (x + 2 ^ 63) mod 2 ^ 64 - 2 ^ 63"

record IndexChunk =
  From :: int
  To :: int

text \<open>
  \<open>chunkSlice\<close> starts a goroutine that sends one \<open>IndexChunk\<close> per iteration of
  \<^verbatim>\<open>for i := 0; i < length; i += chunkSize\<close> and closes the channel when the loop ends.
  The value of the model is the sequence of chunks received from the channel until it is
  closed; \<open>None\<close> when the loop never ends, so that the channel is never closed.
\<close>

partial_function (option) chunkLoop :: "int \<Rightarrow> int \<Rightarrow> int \<Rightarrow> IndexChunk list option" where
  "chunkLoop i len chunkSize =
     (if i < len then
        (let to = wrap_int64 (i + chunkSize);
             idx = \<lparr>From = i, To = (if len < to then len else to)\<rparr>
         in Option.bind (chunkLoop (wrap_int64 (i + chunkSize)) len chunkSize)
              (\<lambda>rest. Some (idx # rest)))
      else Some [])"

declare chunkLoop.simps [code]

definition chunkSlice :: "int \<Rightarrow> int \<Rightarrow> IndexChunk list option" where
  "chunkSlice len chunkSize = chunkLoop 0 len chunkSize"

text \<open>The indices a half-open range \<open>[From, To)\<close> stands for, in order.\<close>

definition chunk_indices :: "IndexChunk \<Rightarrow> int list" where
  "chunk_indices c = [From c..To c - 1]"

text \<open>
  The ranges of step \<open>s\<close> from \<open>i\<close> up to \<open>n\<close> over the unbounded integers: a total
  function used in the proofs to name what the loop sends while no addition overflows.
\<close>

function chunks_from :: "int \<Rightarrow> int \<Rightarrow> int \<Rightarrow> IndexChunk list" where
  "chunks_from i n s =
     (if i < n \<and> 0 < s then \<lparr>From = i, To = min n (i + s)\<rparr> # chunks_from (i + s) n s
      else [])"
  by pat_completeness auto
termination
  by (relation "measure (\<lambda>(i, n, s). nat (n - i))") auto

declare chunks_from.simps [simp del]

text \<open>
  The start of the last range for \<open>n > 0\<close>: the largest multiple of \<open>s\<close> below \<open>n\<close>. It
  is the largest value of the loop variable for which the body runs and \<open>i + chunkSize\<close>
  is computed.
\<close>

definition last_start :: "int \<Rightarrow> int \<Rightarrow> int" where
  "last_start n s = ((n - 1) div s) * s"


section \<open>Errors\<close>

text \<open>
  Go error values, as far as the code tells them apart: gorm's record-not-found
  sentinel, go-sqlite3's \<open>sqlite3.Error\<close> (its result code and message), any other error
  of a library, an error wrapped by \<^verbatim>\<open>xerrors.Errorf("<prefix>: %w", err)\<close>, and an error
  that is only a message (\<^verbatim>\<open>fmt.Errorf\<close> with \<^verbatim>\<open>%s\<close>, \<^verbatim>\<open>xerrors.New\<close>).
\<close>

datatype error =
    ErrRecordNotFound
  | Sqlite3Error int string
  | BackendError string
  | Errorf string error
  | ErrorString string

text \<open>\<^verbatim>\<open>err.Error()\<close>\<close>

fun Error :: "error \<Rightarrow> string" where
  "Error ErrRecordNotFound = ''record not found''"
| "Error (Sqlite3Error code msg) = msg"
| "Error (BackendError msg) = msg"
| "Error (Errorf prefix err) = prefix @ '': '' @ Error err"
| "Error (ErrorString msg) = msg"

text \<open>\<^verbatim>\<open>errors.Is(err, gorm.ErrRecordNotFound)\<close>: follows the chain of \<^verbatim>\<open>%w\<close> wrappers.\<close>

fun errors_Is_ErrRecordNotFound :: "error \<Rightarrow> bool" where
  "errors_Is_ErrRecordNotFound ErrRecordNotFound = True"
| "errors_Is_ErrRecordNotFound (Errorf prefix err) = errors_Is_ErrRecordNotFound err"
| "errors_Is_ErrRecordNotFound _ = False"

text \<open>
  \<^verbatim>\<open>errors.Is(err, gorm.ErrRecordNotFound)\<close> for an \<open>err\<close> that may be \<open>nil\<close>.
\<close>

definition errors_Is :: "error option \<Rightarrow> bool" where
  "errors_Is err = (case err of None \<Rightarrow> False | Some e \<Rightarrow> errors_Is_ErrRecordNotFound e)"

text \<open>
  What a call leaves behind: it returns a value in a state, it panics in a state, or it
  does not return.
\<close>

datatype ('a, 's) go = Ret 'a 's | Panic 's | NoReturn


section \<open>The entry model and the store\<close>

text \<open>
  Modelled from the spec: the package \<open>models\<close> (\<open>FetchType\<close>, \<open>CategorizedCpe\<close>,
  \<open>FetchMeta\<close>, \<open>LatestSchemaVersion\<close>) and \<open>config.Revision\<close> are declared outside
  the source files at hand. The records have the fields of the spec's Entry and FetchMeta,
  under the names the code uses for them; the two build constants are parameters.
\<close>

type_synonym FetchType = string

record CategorizedCpe =
  FetchType :: FetchType
  Vendor :: string
  Product :: string
  CpeURI :: string
  Deprecated :: bool

record FetchMeta =
  GoCPEDictRevision :: string
  SchemaVersion :: nat
  LastFetchedAt :: int

record build =
  Revision :: string
  LatestSchemaVersion :: nat

text \<open>
  The relational store behind a \<^verbatim>\<open>*gorm.DB\<close>: the tables its catalogue lists, the single
  metadata row if there is one, and the entry rows, each under the primary key \<open>id\<close>
  the backend gave it.
\<close>

record store =
  tables :: "string list"
  fetch_meta :: "FetchMeta option"
  categorized_cpes :: "(int \<times> CategorizedCpe) list"

definition FetchMeta_table :: string where
  "FetchMeta_table = ''fetch_meta''"

definition CategorizedCpe_table :: string where
  "CategorizedCpe_table = ''categorized_cpes''"

text \<open>The statements the driver issues through gorm.\<close>

datatype stmt =
    SBegin
  | SCommit
  | SRollback
  | SSelectIDs FetchType
  | SDeleteIDs "int list"
  | SCreate "CategorizedCpe list"
  | SFindVendorProducts
  | SFindCpes string string
  | STakeFetchMeta
  | SSaveFetchMeta FetchMeta
  | SHasTable string
  | SCountTables string
  | SAutoMigrate
  | SExecPragma

text \<open>
  A connection: the committed store, the outcomes the backend will give to the coming
  statements whose error the code reads (\<open>Some err\<close>: the statement fails with \<open>err\<close> and
  changes nothing; an exhausted list: every further statement succeeds), and the
  statements issued so far, each with its outcome. \<open>Begin\<close>, \<open>Rollback\<close>, \<open>HasTable\<close> and
  the \<open>PRAGMA\<close> are issued by the code without reading an error; they are recorded and
  take no outcome from the list. \<open>Commit\<close> takes one, although the code does not read its
  error either: whether the working copy is installed depends on it.
\<close>

record gorm_DB =
  db_store :: store
  db_faults :: "error option list"
  db_trace :: "(stmt \<times> error option) list"

definition next_outcome :: "gorm_DB \<Rightarrow> error option" where
  "next_outcome c = (case db_faults c of [] \<Rightarrow> None | f # fs \<Rightarrow> f)"

definition issue :: "stmt \<Rightarrow> gorm_DB \<Rightarrow> error option \<times> gorm_DB" where
  "issue s c =
     (next_outcome c,
      c\<lparr>db_faults := tl (db_faults c), db_trace := db_trace c @ [(s, next_outcome c)]\<rparr>)"

definition record_stmt :: "stmt \<Rightarrow> error option \<Rightarrow> gorm_DB \<Rightarrow> gorm_DB" where
  "record_stmt s outcome c = c\<lparr>db_trace := db_trace c @ [(s, outcome)]\<rparr>"

text \<open>
  A transaction (\<^verbatim>\<open>tx := conn.Begin()\<close>): the connection and the working copy of the store
  that the statements of the transaction read and write. \<open>Commit\<close> installs the working
  copy when the backend lets it succeed and leaves the committed store as it is when it
  fails; \<open>Rollback\<close> drops the working copy.
\<close>

record tx =
  tx_conn :: gorm_DB
  work :: store

definition Begin :: "gorm_DB \<Rightarrow> tx" where
  "Begin c = \<lparr>tx_conn = record_stmt SBegin None c, work = db_store c\<rparr>"

definition Commit :: "tx \<Rightarrow> gorm_DB" where
  "Commit t =
     (case issue SCommit (tx_conn t) of
        (Some e, c) \<Rightarrow> c
      | (None, c) \<Rightarrow> c\<lparr>db_store := work t\<rparr>)"

definition Rollback :: "tx \<Rightarrow> gorm_DB" where
  "Rollback t = record_stmt SRollback None (tx_conn t)"

definition tx_issue :: "stmt \<Rightarrow> tx \<Rightarrow> error option \<times> tx" where
  "tx_issue s t = (case issue s (tx_conn t) of (outcome, c) \<Rightarrow> (outcome, t\<lparr>tx_conn := c\<rparr>))"

text \<open>
  \<^verbatim>\<open>tx.Model(models.CategorizedCpe{}).Select("id").Where("fetch_type = ?", fetchType).Find(&oldIDs)\<close>:
  the ids found, \<open>RowsAffected\<close> and \<open>Error\<close>.
\<close>

definition tx_Find_ids :: "FetchType \<Rightarrow> tx \<Rightarrow> (int list \<times> int \<times> error option) \<times> tx" where
  "tx_Find_ids fetchType t =
     (case tx_issue (SSelectIDs fetchType) t of
        (Some err, t') \<Rightarrow> (([], 0, Some err), t')
      | (None, t') \<Rightarrow>
          (let ids = map fst (filter (\<lambda>r. FetchType (snd r) = fetchType) (categorized_cpes (work t')))
           in ((ids, int (length ids), None), t')))"

text \<open>\<^verbatim>\<open>tx.Where("id IN ?", ids).Delete(&models.CategorizedCpe{})\<close>\<close>

definition tx_Delete :: "int list \<Rightarrow> tx \<Rightarrow> error option \<times> tx" where
  "tx_Delete ids t =
     (case tx_issue (SDeleteIDs ids) t of
        (Some err, t') \<Rightarrow> (Some err, t')
      | (None, t') \<Rightarrow>
          (None, t'\<lparr>work := (work t')\<lparr>categorized_cpes :=
                     filter (\<lambda>r. fst r \<notin> set ids) (categorized_cpes (work t'))\<rparr>\<rparr>))"

text \<open>
  \<^verbatim>\<open>tx.Create(rows)\<close>: the backend numbers the new rows after the largest id in the table.
\<close>

definition next_id :: "(int \<times> CategorizedCpe) list \<Rightarrow> int" where
  "next_id rows = fold max (map fst rows) 0 + 1"

definition number_rows :: "int \<Rightarrow> CategorizedCpe list \<Rightarrow> (int \<times> CategorizedCpe) list" where
  "number_rows first cpes = zip (map (\<lambda>k. first + int k) [0..<length cpes]) cpes"

definition tx_Create :: "CategorizedCpe list \<Rightarrow> tx \<Rightarrow> error option \<times> tx" where
  "tx_Create cpes t =
     (case tx_issue (SCreate cpes) t of
        (Some err, t') \<Rightarrow> (Some err, t')
      | (None, t') \<Rightarrow>
          (None, t'\<lparr>work := (work t')\<lparr>categorized_cpes :=
                     categorized_cpes (work t') @
                     number_rows (next_id (categorized_cpes (work t'))) cpes\<rparr>\<rparr>))"


section \<open>The bulk replace (db/rdb.go: InsertCpes, deleteAndInsertCpes)\<close>

text \<open>
  \<^verbatim>\<open>s[low:high]\<close> panics unless \<open>0 \<le> low \<le> high \<le> cap(s)\<close>; the capacity is taken to be the
  length.
\<close>

definition slice :: "'a list \<Rightarrow> int \<Rightarrow> int \<Rightarrow> 'a list option" where
  "slice xs low high =
     (if 0 \<le> low \<and> low \<le> high \<and> high \<le> int (length xs)
      then Some (take (nat (high - low)) (drop (nat low) xs)) else None)"

text \<open>
  How the body of \<open>deleteAndInsertCpes\<close> ends: by a \<^verbatim>\<open>return\<close> that sets the named result
  \<open>err\<close>, by a panic, or not at all.
\<close>

datatype body_result = Done "error option" tx | BodyPanic tx | BodyNoReturn

text \<open>
  \<^verbatim>\<open>for idx := range chunkSlice(len(oldIDs), 10000)\<close>, over the chunks received.
\<close>

fun delete_chunks :: "IndexChunk list \<Rightarrow> int list \<Rightarrow> tx \<Rightarrow> body_result" where
  "delete_chunks [] oldIDs t = Done None t"
| "delete_chunks (idx # rest) oldIDs t =
     (case slice oldIDs (From idx) (To idx) of
        None \<Rightarrow> BodyPanic t
      | Some ids \<Rightarrow>
          (case tx_Delete ids t of
             (Some err, t') \<Rightarrow> Done (Some (Errorf ''Failed to delete'' err)) t'
           | (None, t') \<Rightarrow> delete_chunks rest oldIDs t'))"

text \<open>
  \<^verbatim>\<open>for idx := range chunkSlice(len(cpes), 2000)\<close>, over the chunks received. The progress
  bar is display only and is left out.
\<close>

fun insert_chunks :: "IndexChunk list \<Rightarrow> CategorizedCpe list \<Rightarrow> tx \<Rightarrow> body_result" where
  "insert_chunks [] cpes t = Done None t"
| "insert_chunks (idx # rest) cpes t =
     (case slice cpes (From idx) (To idx) of
        None \<Rightarrow> BodyPanic t
      | Some rows \<Rightarrow>
          (case tx_Create rows t of
             (Some err, t') \<Rightarrow> Done (Some (Errorf ''Failed to insert. err'' err)) t'
           | (None, t') \<Rightarrow> insert_chunks rest cpes t'))"

text \<open>
  The range loops receive the chunks one by one; the model hands them the whole sequence,
  which is the same whenever the producer closes its channel. A producer that never
  closes it (\<open>chunkSlice\<close> is \<open>None\<close>; only for lengths no Go slice has) is \<open>BodyNoReturn\<close>.
\<close>

definition delete_phase :: "int list \<Rightarrow> int \<Rightarrow> tx \<Rightarrow> body_result" where
  "delete_phase oldIDs rowsAffected t =
     (if rowsAffected > 0 then
        (case chunkSlice (int (length oldIDs)) 10000 of
           None \<Rightarrow> BodyNoReturn
         | Some idxs \<Rightarrow> delete_chunks idxs oldIDs t)
      else Done None t)"

definition insert_phase :: "CategorizedCpe list \<Rightarrow> tx \<Rightarrow> body_result" where
  "insert_phase cpes t =
     (case chunkSlice (int (length cpes)) 2000 of
        None \<Rightarrow> BodyNoReturn
      | Some idxs \<Rightarrow> insert_chunks idxs cpes t)"

definition replace_body :: "tx \<Rightarrow> FetchType \<Rightarrow> CategorizedCpe list \<Rightarrow> body_result" where
  "replace_body t fetchType cpes =
     (case tx_Find_ids fetchType t of
        ((oldIDs, rowsAffected, result_Error), t1) \<Rightarrow>
          if result_Error \<noteq> None \<and> \<not> errors_Is result_Error
          then Done (Some (Errorf ''Failed to select old defs'' (the result_Error))) t1
          else (case delete_phase oldIDs rowsAffected t1 of
                  Done None t2 \<Rightarrow> insert_phase cpes t2
                | r \<Rightarrow> r))"

text \<open>
  The deferred function: rollback when the named result \<open>err\<close> is set, commit otherwise.
  It also runs when the body panics, with \<open>err\<close> still \<open>nil\<close>. The results of
  \<^verbatim>\<open>tx.Rollback()\<close> and \<^verbatim>\<open>tx.Commit()\<close> are discarded: a commit that fails does not change
  what the function returns.
\<close>

definition deferred :: "body_result \<Rightarrow> (error option, gorm_DB) go" where
  "deferred r =
     (case r of
        Done err t \<Rightarrow> (if err \<noteq> None then Ret err (Rollback t) else Ret err (Commit t))
      | BodyPanic t \<Rightarrow> Panic (Commit t)
      | BodyNoReturn \<Rightarrow> NoReturn)"

definition deleteAndInsertCpes ::
    "gorm_DB \<Rightarrow> FetchType \<Rightarrow> CategorizedCpe list \<Rightarrow> (error option, gorm_DB) go" where
  "deleteAndInsertCpes conn fetchType cpes = deferred (replace_body (Begin conn) fetchType cpes)"

definition InsertCpes ::
    "gorm_DB \<Rightarrow> FetchType \<Rightarrow> CategorizedCpe list \<Rightarrow> (error option, gorm_DB) go" where
  "InsertCpes conn fetchType cpes = deleteAndInsertCpes conn fetchType cpes"


section \<open>Lookups (db/rdb.go: GetVendorProducts, GetCpesByVendorProduct)\<close>

text \<open>
  \<open>LIKE\<close> is the backend's operator: how it folds case, which collation it compares
  under and whether it has an escape character differ between sqlite3, MySQL and
  PostgreSQL and with their settings. It is a parameter \<open>like\<close> of the lookup, applied to
  the pattern and the text.

  \<open>sqlite3_like\<close> is the operator as sqlite3 has it by default, which is how \<open>OpenDB\<close>
  leaves it (it sets \<^verbatim>\<open>PRAGMA foreign_keys\<close> only): \<open>%\<close> matches any run of characters,
  \<open>_\<close> any one character, ASCII letters match without regard to case, and there is no
  escape character. \<open>wildcard_match\<close> is the matching of the two wildcards alone.
\<close>

fun wildcard_match :: "string \<Rightarrow> string \<Rightarrow> bool" where
  "wildcard_match [] s = (s = [])"
| "wildcard_match (p # ps) [] = (p = CHR ''%'' \<and> wildcard_match ps [])"
| "wildcard_match (p # ps) (c # cs) =
     (if p = CHR ''%'' then wildcard_match ps (c # cs) \<or> wildcard_match (p # ps) cs
      else (p = CHR ''_'' \<or> p = c) \<and> wildcard_match ps cs)"

definition ascii_lower :: "char \<Rightarrow> char" where
  "ascii_lower c =
     (if (65::nat) \<le> of_char c \<and> of_char c \<le> (90::nat) then char_of (of_char c + (32::nat)) else c)"

definition sqlite3_like :: "string \<Rightarrow> string \<Rightarrow> bool" where
  "sqlite3_like pattern s = wildcard_match (map ascii_lower pattern) (map ascii_lower s)"

text \<open>
  \<^verbatim>\<open>r.conn.Model(&models.CategorizedCpe{}).Distinct("vendor", "product").Find(&results)\<close>:
  the rows found and \<open>Error\<close>.
\<close>

definition Find_vendor_products ::
    "gorm_DB \<Rightarrow> ((string \<times> string) list \<times> error option) \<times> gorm_DB" where
  "Find_vendor_products c =
     (case issue SFindVendorProducts c of
        (Some e, c') \<Rightarrow> (([], Some e), c')
      | (None, c') \<Rightarrow>
          ((remdups (map (\<lambda>r. (Vendor (snd r), Product (snd r))) (categorized_cpes (db_store c'))),
            None), c'))"

definition GetVendorProducts :: "gorm_DB \<Rightarrow> (string list \<times> error option) \<times> gorm_DB" where
  "GetVendorProducts c =
     (case Find_vendor_products c of
        ((results, err), c') \<Rightarrow>
          if err \<noteq> None \<and> errors_Is err
          then (([], Some (ErrorString (''Failed to select results. err: '' @ Error (the err)))), c')
          else ((map (\<lambda>vp. fst vp @ ''::'' @ snd vp) results, err), c'))"

text \<open>
  \<^verbatim>\<open>r.conn.Distinct("cpe_uri", "deprecated").Find(&results, "vendor LIKE ? and product LIKE ?", vendor, product)\<close>:
  the \<open>(cpe_uri, deprecated)\<close> pairs found and \<open>Error\<close>.
\<close>

definition Find_cpes ::
    "(string \<Rightarrow> string \<Rightarrow> bool) \<Rightarrow> string \<Rightarrow> string \<Rightarrow> gorm_DB \<Rightarrow>
       ((string \<times> bool) list \<times> error option) \<times> gorm_DB" where
  "Find_cpes like vendor product c =
     (case issue (SFindCpes vendor product) c of
        (Some e, c') \<Rightarrow> (([], Some e), c')
      | (None, c') \<Rightarrow>
          ((remdups (map (\<lambda>r. (CpeURI (snd r), Deprecated (snd r)))
              (filter (\<lambda>r. like vendor (Vendor (snd r)) \<and> like product (Product (snd r)))
                 (categorized_cpes (db_store c')))),
            None), c'))"

text \<open>The loop over \<open>results\<close>: the pair \<open>(cpeURIs, deprecated)\<close>.\<close>

fun split_results :: "(string \<times> bool) list \<Rightarrow> string list \<times> string list" where
  "split_results [] = ([], [])"
| "split_results (r # rs) =
     (case split_results rs of
        (cpeURIs, deprecated) \<Rightarrow>
          if snd r then (cpeURIs, fst r # deprecated) else (fst r # cpeURIs, deprecated))"

definition GetCpesByVendorProduct ::
    "(string \<Rightarrow> string \<Rightarrow> bool) \<Rightarrow> gorm_DB \<Rightarrow> string \<Rightarrow> string \<Rightarrow>
       (string list \<times> string list \<times> error option) \<times> gorm_DB" where
  "GetCpesByVendorProduct like c vendor product =
     (case Find_cpes like vendor product c of
        ((results, err), c') \<Rightarrow>
          if err \<noteq> None \<and> errors_Is err
          then (([], [], Some (ErrorString (''Failed to select results. err: '' @ Error (the err)))), c')
          else (case split_results results of
                  (cpeURIs, deprecated) \<Rightarrow> ((cpeURIs, deprecated, None), c')))"


section \<open>Fetch metadata (db/rdb.go: GetFetchMeta, UpsertFetchMeta)\<close>

text \<open>\<^verbatim>\<open>r.conn.Take(&fetchMeta)\<close>: a table without a row answers record-not-found.\<close>

definition Take_fetch_meta :: "gorm_DB \<Rightarrow> (FetchMeta option \<times> error option) \<times> gorm_DB" where
  "Take_fetch_meta c =
     (let outcome = (case next_outcome c of
                       Some e \<Rightarrow> Some e
                     | None \<Rightarrow> (case fetch_meta (db_store c) of
                                  None \<Rightarrow> Some ErrRecordNotFound
                                | Some m \<Rightarrow> None));
          c' = c\<lparr>db_faults := tl (db_faults c), db_trace := db_trace c @ [(STakeFetchMeta, outcome)]\<rparr>
      in if outcome = None then ((fetch_meta (db_store c), None), c') else ((None, outcome), c'))"

text \<open>The zero \<^verbatim>\<open>time.Time\<close>.\<close>

definition zero_time :: int where
  "zero_time = 0"

definition GetFetchMeta :: "build \<Rightarrow> gorm_DB \<Rightarrow> (FetchMeta option \<times> error option) \<times> gorm_DB" where
  "GetFetchMeta b c =
     (case Take_fetch_meta c of
        ((fetchMeta, err), c') \<Rightarrow>
          if err \<noteq> None then
            (if \<not> errors_Is err then ((None, err), c')
             else ((Some \<lparr>GoCPEDictRevision = Revision b, SchemaVersion = LatestSchemaVersion b,
                          LastFetchedAt = zero_time\<rparr>, None), c'))
          else ((fetchMeta, None), c'))"

text \<open>\<^verbatim>\<open>r.conn.Save(fetchMeta)\<close>: writes the single metadata row.\<close>

definition Save_fetch_meta :: "FetchMeta \<Rightarrow> gorm_DB \<Rightarrow> error option \<times> gorm_DB" where
  "Save_fetch_meta m c =
     (case issue (SSaveFetchMeta m) c of
        (Some e, c') \<Rightarrow> (Some e, c')
      | (None, c') \<Rightarrow> (None, c'\<lparr>db_store := (db_store c')\<lparr>fetch_meta := Some m\<rparr>\<rparr>))"

text \<open>
  The caller passes a pointer: the result is the error and the caller's \<open>FetchMeta\<close> as
  the call leaves it.
\<close>

definition UpsertFetchMeta ::
    "build \<Rightarrow> gorm_DB \<Rightarrow> FetchMeta \<Rightarrow> (error option \<times> FetchMeta) \<times> gorm_DB" where
  "UpsertFetchMeta b c fetchMeta =
     (let m1 = fetchMeta\<lparr>GoCPEDictRevision := Revision b\<rparr>;
          m2 = m1\<lparr>SchemaVersion := LatestSchemaVersion b\<rparr>
      in case Save_fetch_meta m2 c of (err, c') \<Rightarrow> ((err, m2), c'))"


section \<open>Opening a store (db/rdb.go: OpenDB, MigrateDB, IsGoCPEDictModelV1; db/db.go: NewDB)\<close>

definition dialectSqlite3 :: string where
  "dialectSqlite3 = ''sqlite3''"

definition dialectMysql :: string where
  "dialectMysql = ''mysql''"

definition dialectPostgreSQL :: string where
  "dialectPostgreSQL = ''postgres''"

text \<open>The result codes \<open>sqlite3.ErrBusy\<close> and \<open>sqlite3.ErrLocked\<close> of go-sqlite3.\<close>

definition sqlite3_ErrBusy :: int where
  "sqlite3_ErrBusy = 5"

definition sqlite3_ErrLocked :: int where
  "sqlite3_ErrLocked = 6"

record RDBDriver =
  r_name :: string
  r_conn :: "gorm_DB option"

definition open_msg :: "string \<Rightarrow> string \<Rightarrow> error \<Rightarrow> string" where
  "open_msg dbType dbPath e =
     ''Failed to open DB. dbtype: '' @ dbType @ '', dbpath: '' @ dbPath @ '', err: '' @ Error e"

text \<open>
  \<open>OpenDB\<close>. What \<^verbatim>\<open>gorm.Open\<close> answers for a dialect, a path and the logger setting is the
  parameter \<open>gorm_Open\<close>: an error, or a connection. \<^verbatim>\<open>err.(sqlite3.Error)\<close> is a type
  assertion without the comma-ok form: it panics unless the dynamic type of \<open>err\<close> is
  \<open>sqlite3.Error\<close>. (\<^verbatim>\<open>fmt.Errorf(msg)\<close> reads \<open>msg\<close> as a format; the error is the text
  \<open>msg\<close> when that has no \<^verbatim>\<open>%\<close>. After a failed \<^verbatim>\<open>gorm.Open\<close> the driver holds no
  connection.)
\<close>

definition OpenDB ::
    "(string \<Rightarrow> string \<Rightarrow> bool \<Rightarrow> error + gorm_DB) \<Rightarrow> RDBDriver \<Rightarrow> string \<Rightarrow> string \<Rightarrow> bool \<Rightarrow>
       (bool \<times> error option, RDBDriver) go" where
  "OpenDB gorm_Open r dbType dbPath debugSQL =
     (let opened =
            (if r_name r = dialectSqlite3 \<or> r_name r = dialectMysql \<or> r_name r = dialectPostgreSQL
             then gorm_Open (r_name r) dbPath debugSQL
             else Inl (ErrorString (''Not Supported DB dialects. r.name: '' @ r_name r)))
      in case opened of
           Inl e \<Rightarrow>
             (let r' = (if r_name r = dialectSqlite3 \<or> r_name r = dialectMysql \<or>
                           r_name r = dialectPostgreSQL
                        then r\<lparr>r_conn := None\<rparr> else r);
                  msg = open_msg dbType dbPath e
              in if r_name r = dialectSqlite3 then
                   (case e of
                      Sqlite3Error code text \<Rightarrow>
                        if code = sqlite3_ErrLocked \<or> code = sqlite3_ErrBusy
                        then Ret (True, Some (ErrorString msg)) r'
                        else Ret (False, Some (ErrorString msg)) r'
                    | _ \<Rightarrow> Panic r')
                 else Ret (False, Some (ErrorString msg)) r')
         | Inr c \<Rightarrow>
             (if r_name r = dialectSqlite3
              then Ret (False, None) (r\<lparr>r_conn := Some (record_stmt SExecPragma None c)\<rparr>)
              else Ret (False, None) (r\<lparr>r_conn := Some c\<rparr>)))"

text \<open>
  \<open>MigrateDB\<close>: \<^verbatim>\<open>AutoMigrate\<close> creates the tables that are missing. A method called on a
  driver whose \<open>conn\<close> is \<open>nil\<close> panics.
\<close>

definition MigrateDB :: "RDBDriver \<Rightarrow> (error option, RDBDriver) go" where
  "MigrateDB r =
     (case r_conn r of
        None \<Rightarrow> Panic r
      | Some c \<Rightarrow>
          (case issue SAutoMigrate c of
             (Some e, c') \<Rightarrow>
               Ret (Some (ErrorString (''Failed to migrate. err: '' @ Error e))) (r\<lparr>r_conn := Some c'\<rparr>)
           | (None, c') \<Rightarrow>
               Ret None (r\<lparr>r_conn := Some (c'\<lparr>db_store := (db_store c')\<lparr>tables :=
                  tables (db_store c') @
                  filter (\<lambda>n. n \<notin> set (tables (db_store c'))) [FetchMeta_table, CategorizedCpe_table]\<rparr>\<rparr>)\<rparr>)))"

text \<open>
  The catalogue query of \<open>IsGoCPEDictModelV1\<close> counts the tables of the store; when it
  fails, \<open>count\<close> stays \<open>0\<close>.
\<close>

definition Count_tables :: "string \<Rightarrow> gorm_DB \<Rightarrow> (int \<times> error option) \<times> gorm_DB" where
  "Count_tables catalogue c =
     (case issue (SCountTables catalogue) c of
        (Some e, c') \<Rightarrow> ((0, Some e), c')
      | (None, c') \<Rightarrow> ((int (length (tables (db_store c'))), None), c'))"

definition IsGoCPEDictModelV1 :: "RDBDriver \<Rightarrow> (bool \<times> error option, RDBDriver) go" where
  "IsGoCPEDictModelV1 r =
     (case r_conn r of
        None \<Rightarrow> Panic r
      | Some c \<Rightarrow>
          (let c1 = record_stmt (SHasTable FetchMeta_table) None c
           in if FetchMeta_table \<in> set (tables (db_store c1))
              then Ret (False, None) (r\<lparr>r_conn := Some c1\<rparr>)
              else
                (case (if r_name r = dialectSqlite3 then Count_tables ''sqlite_master'' c1
                       else if r_name r = dialectMysql then Count_tables ''information_schema.tables'' c1
                       else if r_name r = dialectPostgreSQL then Count_tables ''pg_tables'' c1
                       else ((0, None), c1)) of
                   ((count, err), c2) \<Rightarrow>
                     if count > 0 then Ret (True, None) (r\<lparr>r_conn := Some c2\<rparr>)
                     else Ret (False, err) (r\<lparr>r_conn := Some c2\<rparr>))))"

text \<open>
  The Redis driver and its dialect name are declared outside the source files at hand:
  its constructor and the three methods \<open>NewDB\<close> calls are parameters, with \<open>gorm.Open\<close>,
  in the environment \<open>env\<close>.
\<close>

record 'r env =
  gorm_Open :: "string \<Rightarrow> string \<Rightarrow> bool \<Rightarrow> error + gorm_DB"
  dialectRedis :: string
  new_RedisDriver :: "string \<Rightarrow> 'r"
  redis_OpenDB :: "'r \<Rightarrow> string \<Rightarrow> string \<Rightarrow> bool \<Rightarrow> (bool \<times> error option, 'r) go"
  redis_IsGoCPEDictModelV1 :: "'r \<Rightarrow> (bool \<times> error option, 'r) go"
  redis_MigrateDB :: "'r \<Rightarrow> (error option, 'r) go"

text \<open>A value of the interface \<open>DB\<close>.\<close>

datatype 'r driver = RDB RDBDriver | Redis 'r

definition newDB :: "'r env \<Rightarrow> string \<Rightarrow> error + 'r driver" where
  "newDB env dbType =
     (if dbType = dialectSqlite3 \<or> dbType = dialectMysql \<or> dbType = dialectPostgreSQL
      then Inr (RDB \<lparr>r_name = dbType, r_conn = None\<rparr>)
      else if dbType = dialectRedis env then Inr (Redis (new_RedisDriver env dbType))
      else Inl (ErrorString (''Invalid database dialect, '' @ dbType)))"

definition DB_OpenDB ::
    "'r env \<Rightarrow> 'r driver \<Rightarrow> string \<Rightarrow> string \<Rightarrow> bool \<Rightarrow> (bool \<times> error option, 'r driver) go" where
  "DB_OpenDB env d dbType dbPath debugSQL =
     (case d of
        RDB r \<Rightarrow> map_go id RDB (OpenDB (gorm_Open env) r dbType dbPath debugSQL)
      | Redis x \<Rightarrow> map_go id Redis (redis_OpenDB env x dbType dbPath debugSQL))"

definition DB_IsGoCPEDictModelV1 :: "'r env \<Rightarrow> 'r driver \<Rightarrow> (bool \<times> error option, 'r driver) go" where
  "DB_IsGoCPEDictModelV1 env d =
     (case d of
        RDB r \<Rightarrow> map_go id RDB (IsGoCPEDictModelV1 r)
      | Redis x \<Rightarrow> map_go id Redis (redis_IsGoCPEDictModelV1 env x))"

definition DB_MigrateDB :: "'r env \<Rightarrow> 'r driver \<Rightarrow> (error option, 'r driver) go" where
  "DB_MigrateDB env d =
     (case d of
        RDB r \<Rightarrow> map_go id RDB (MigrateDB r)
      | Redis x \<Rightarrow> map_go id Redis (redis_MigrateDB env x))"

definition incompatible :: error where
  "incompatible = ErrorString
     ''Failed to NewDB. Since SchemaVersion is incompatible, delete Database and fetch again.''"

text \<open>
  \<open>NewDB\<close> returns \<open>(driver, locked, err)\<close>. The state it leaves is the driver object it
  built, also when it returns \<open>nil\<close> for the driver.
\<close>

definition NewDB ::
    "'r env \<Rightarrow> string \<Rightarrow> string \<Rightarrow> bool \<Rightarrow>
       ('r driver option \<times> bool \<times> error option, 'r driver option) go" where
  "NewDB env dbType dbPath debugSQL =
     (case newDB env dbType of
        Inl e \<Rightarrow> Ret (None, False, Some e) None
      | Inr d \<Rightarrow>
          (case DB_OpenDB env d dbType dbPath debugSQL of
             Panic d1 \<Rightarrow> Panic (Some d1)
           | NoReturn \<Rightarrow> NoReturn
           | Ret (locked, err) d1 \<Rightarrow>
               if err \<noteq> None then
                 (if locked then Ret (None, True, err) (Some d1)
                  else Ret (None, False, err) (Some d1))
               else
                 (case DB_IsGoCPEDictModelV1 env d1 of
                    Panic d2 \<Rightarrow> Panic (Some d2)
                  | NoReturn \<Rightarrow> NoReturn
                  | Ret (isV1, err) d2 \<Rightarrow>
                      if err \<noteq> None then Ret (None, False, err) (Some d2)
                      else if isV1 then Ret (None, False, Some incompatible) (Some d2)
                      else
                        (case DB_MigrateDB env d2 of
                           Panic d3 \<Rightarrow> Panic (Some d3)
                         | NoReturn \<Rightarrow> NoReturn
                         | Ret err d3 \<Rightarrow>
                             if err \<noteq> None then Ret (Some d3, False, err) (Some d3)
                             else Ret (Some d3, False, None) (Some d3)))))"


section \<open>Reading a run of the bulk replace\<close>

text \<open>
  The definitions of this section are not code of the repository: they name what the
  theorems say about a run of \<open>deleteAndInsertCpes\<close>.

  \<open>parts n xs\<close> cuts \<open>xs\<close> into consecutive pieces of \<open>n\<close> elements, the last one shorter
  when \<open>n\<close> does not divide the length.
\<close>

function parts :: "nat \<Rightarrow> 'a list \<Rightarrow> 'a list list" where
  "parts n xs = (if xs = [] \<or> n = 0 then [] else take n xs # parts n (drop n xs))"
  by pat_completeness auto
termination
  by (relation "measure (\<lambda>(n, xs). length xs)") auto

declare parts.simps [simp del]

text \<open>
  The three wrappers of the source:
  \<^verbatim>\<open>xerrors.Errorf("Failed to select old defs: %w", result.Error)\<close>,
  \<^verbatim>\<open>xerrors.Errorf("Failed to delete: %w", err)\<close> and
  \<^verbatim>\<open>xerrors.Errorf("Failed to insert. err: %w", err)\<close>.
\<close>

fun phase_prefix :: "stmt \<Rightarrow> string" where
  "phase_prefix (SSelectIDs fetchType) = ''Failed to select old defs''"
| "phase_prefix (SDeleteIDs ids) = ''Failed to delete''"
| "phase_prefix (SCreate rows) = ''Failed to insert. err''"
| "phase_prefix _ = []"

text \<open>
  The error a statement of the replace makes the function return, given the outcome the
  backend gave it. The source does not take a record-not-found answer to the select for a
  failure (\<^verbatim>\<open>result.Error != nil && !errors.Is(result.Error, gorm.ErrRecordNotFound)\<close>).
  A step has failed when it makes the function return an error.
\<close>

fun step_error :: "stmt \<times> error option \<Rightarrow> error option" where
  "step_error (s, None) = None"
| "step_error (SSelectIDs fetchType, Some err) =
     (if errors_Is_ErrRecordNotFound err then None
      else Some (Errorf (phase_prefix (SSelectIDs fetchType)) err))"
| "step_error (s, Some err) = Some (Errorf (phase_prefix s) err)"

definition step_failed :: "stmt \<times> error option \<Rightarrow> bool" where
  "step_failed x \<longleftrightarrow> step_error x \<noteq> None"

text \<open>
  Issuing a list of statements in order against the outcomes \<open>fs\<close> of the backend, up to
  and including the first step that fails; and the error of the first failed step.
\<close>

fun issue_all :: "stmt list \<Rightarrow> error option list \<Rightarrow> (stmt \<times> error option) list" where
  "issue_all [] fs = []"
| "issue_all (s # ss) fs =
     (let outcome = (case fs of [] \<Rightarrow> None | f # fs' \<Rightarrow> f)
      in if step_failed (s, outcome) then [(s, outcome)]
         else (s, outcome) # issue_all ss (tl fs))"

fun verdict :: "(stmt \<times> error option) list \<Rightarrow> error option" where
  "verdict [] = None"
| "verdict (x # xs) = (case step_error x of Some e \<Rightarrow> Some e | None \<Rightarrow> verdict xs)"

text \<open>The outcomes the backend gives to the next \<open>n\<close> statements.\<close>

fun next_outcomes :: "error option list \<Rightarrow> nat \<Rightarrow> error option list" where
  "next_outcomes fs 0 = []"
| "next_outcomes fs (Suc n) = (case fs of [] \<Rightarrow> None | f # fs' \<Rightarrow> f) # next_outcomes (tl fs) n"

text \<open>
  The outcome the backend gives to the statement after the next \<open>k\<close> ones; and the
  statement that ends the transaction of a replace that has issued \<open>k\<close> steps: \<open>Commit\<close>,
  with the outcome the backend gives it, when the function returns no error, \<open>Rollback\<close>
  when it returns one.
\<close>

definition outcome_at :: "error option list \<Rightarrow> nat \<Rightarrow> error option" where
  "outcome_at fs k = (case drop k fs of [] \<Rightarrow> None | f # fs' \<Rightarrow> f)"

definition closing :: "error option \<Rightarrow> error option list \<Rightarrow> nat \<Rightarrow> stmt \<times> error option" where
  "closing err fs k = (if err = None then (SCommit, outcome_at fs k) else (SRollback, None))"

text \<open>A range loop of the replace over pieces already cut.\<close>

fun for_parts ::
    "('a \<Rightarrow> tx \<Rightarrow> error option \<times> tx) \<Rightarrow> string \<Rightarrow> 'a list \<Rightarrow> tx \<Rightarrow> body_result" where
  "for_parts f prefix [] t = Done None t"
| "for_parts f prefix (p # ps) t =
     (case f p t of
        (Some err, t') \<Rightarrow> Done (Some (Errorf prefix err)) t'
      | (None, t') \<Rightarrow> for_parts f prefix ps t')"

text \<open>
  The ids of the entries of a fetch type in a store; the ids the select hands to the
  replace (none when the backend answers the select with an error); and the statements
  the replace issues when none fails: the select, one delete for each piece of 10000 old
  ids, one insert for each piece of 2000 new entries.
\<close>

definition old_ids :: "FetchType \<Rightarrow> store \<Rightarrow> int list" where
  "old_ids fetchType st =
     map fst (filter (\<lambda>r. FetchType (snd r) = fetchType) (categorized_cpes st))"

definition seen_ids :: "gorm_DB \<Rightarrow> FetchType \<Rightarrow> int list" where
  "seen_ids conn fetchType =
     (case next_outcome conn of None \<Rightarrow> old_ids fetchType (db_store conn) | Some err \<Rightarrow> [])"

definition plan :: "FetchType \<Rightarrow> int list \<Rightarrow> CategorizedCpe list \<Rightarrow> stmt list" where
  "plan fetchType oldIDs cpes =
     SSelectIDs fetchType # map SDeleteIDs (parts 10000 oldIDs) @ map SCreate (parts 2000 cpes)"

text \<open>
  A statement operation of a transaction issues its statement on the connection; a
  connection after a list of steps.
\<close>

definition stmt_op :: "('a \<Rightarrow> stmt) \<Rightarrow> ('a \<Rightarrow> tx \<Rightarrow> error option \<times> tx) \<Rightarrow> bool" where
  "stmt_op mk f \<longleftrightarrow>
     (\<forall>p t. fst (f p t) = next_outcome (tx_conn t) \<and>
            tx_conn (snd (f p t)) = snd (issue (mk p) (tx_conn t)))"

definition advance :: "(stmt \<times> error option) list \<Rightarrow> gorm_DB \<Rightarrow> gorm_DB" where
  "advance steps c =
     c\<lparr>db_faults := drop (length steps) (db_faults c), db_trace := db_trace c @ steps\<rparr>"


text \<open>
  The rows a lookup matches under the backend's \<open>LIKE\<close>; the statement \<open>OpenDB\<close> records
  for the sqlite3 dialect; and the catalogue \<open>IsGoCPEDictModelV1\<close> queries for each dialect.
\<close>

definition matching ::
    "(string \<Rightarrow> string \<Rightarrow> bool) \<Rightarrow> string \<Rightarrow> string \<Rightarrow> store \<Rightarrow> (int \<times> CategorizedCpe) list" where
  "matching like vendor product st =
     filter (\<lambda>r. like vendor (Vendor (snd r)) \<and> like product (Product (snd r)))
       (categorized_cpes st)"


definition catalogue :: "string \<Rightarrow> string" where
  "catalogue dbType =
     (if dbType = dialectSqlite3 then ''sqlite_master''
      else if dbType = dialectMysql then ''information_schema.tables''
      else ''pg_tables'')"


section \<open>Example stores\<close>

definition cpe_a :: CategorizedCpe where
  "cpe_a = \<lparr>FetchType = ''nvd'', Vendor = ''ntp'', Product = ''ntp'',
            CpeURI = ''cpe:/a:ntp:ntp:4.2.8'', Deprecated = False\<rparr>"

definition cpe_b :: CategorizedCpe where
  "cpe_b = \<lparr>FetchType = ''nvd'', Vendor = ''ntp'', Product = ''ntp'',
            CpeURI = ''cpe:/a:ntp:ntp:4.2.7'', Deprecated = True\<rparr>"

definition cpe_c :: CategorizedCpe where
  "cpe_c = \<lparr>FetchType = ''jvn'', Vendor = ''apache'', Product = ''struts'',
            CpeURI = ''cpe:/a:apache:struts:2.5'', Deprecated = False\<rparr>"

definition cpe_d :: CategorizedCpe where
  "cpe_d = \<lparr>FetchType = ''nvd'', Vendor = ''ntp'', Product = ''ntpd'',
            CpeURI = ''cpe:/a:ntp:ntpd:4.3'', Deprecated = False\<rparr>"

definition example_store :: store where
  "example_store = \<lparr>tables = [FetchMeta_table, CategorizedCpe_table], fetch_meta = None,
     categorized_cpes = [(1, cpe_a), (2, cpe_c), (3, cpe_b)]\<rparr>"

definition example_conn :: "error option list \<Rightarrow> gorm_DB" where
  "example_conn faults = \<lparr>db_store = example_store, db_faults = faults, db_trace = []\<rparr>"


definition example_build :: build where
  "example_build = \<lparr>Revision = ''4f1b2c3'', LatestSchemaVersion = 2\<rparr>"

definition example_meta :: FetchMeta where
  "example_meta = \<lparr>GoCPEDictRevision = ''forged'', SchemaVersion = 99, LastFetchedAt = 1700000000\<rparr>"

definition stored_conn :: gorm_DB where
  "stored_conn = \<lparr>db_store = example_store\<lparr>fetch_meta := Some example_meta\<rparr>,
     db_faults = [], db_trace = []\<rparr>"

definition locked_open :: "string \<Rightarrow> string \<Rightarrow> bool \<Rightarrow> error + gorm_DB" where
  "locked_open dialect path debug = Inl (Sqlite3Error 5 ''database is locked'')"

definition failing_open :: "string \<Rightarrow> string \<Rightarrow> bool \<Rightarrow> error + gorm_DB" where
  "failing_open dialect path debug = Inl (BackendError ''unable to open database file'')"






section \<open>Properties of the chunker\<close>

lemma wrap_int64_id: "- (2 ^ 63) \<le> x \<Longrightarrow> x < 2 ^ 63 \<Longrightarrow> wrap_int64 x = x"
  by (simp add: wrap_int64_def)

lemma chunks_from_Nil: "\<not> i < n \<Longrightarrow> chunks_from i n s = []"
  by (subst chunks_from.simps) simp

lemma chunks_from_Cons:
  "i < n \<Longrightarrow> 0 < s \<Longrightarrow>
     chunks_from i n s = \<lparr>From = i, To = min n (i + s)\<rparr> # chunks_from (i + s) n s"
  by (subst chunks_from.simps) simp

lemma multiple_le_last_start:
  assumes "0 < s" and "s dvd i" and "i < n"
  shows "i \<le> last_start n s"
proof -
  from assms(2) obtain k where k: "i = s * k" by (auto simp: dvd_def)
  have "i div s \<le> (n - 1) div s"
    using assms(1,3) by (intro zdiv_mono1) simp_all
  then have "k \<le> (n - 1) div s" using k assms(1) by simp
  then have "k * s \<le> ((n - 1) div s) * s"
    using assms(1) by (intro mult_right_mono) simp_all
  then show ?thesis using k by (simp add: last_start_def mult.commute)
qed

lemma last_start_le: "0 < s \<Longrightarrow> last_start n s \<le> n - 1"
proof -
  assume s: "0 < s"
  have "(n - 1) div s * s + (n - 1) mod s = n - 1" by simp
  moreover have "0 \<le> (n - 1) mod s" using s by simp
  ultimately show ?thesis unfolding last_start_def by linarith
qed

text \<open>
  While the last addition \<open>last_start n s + s\<close> fits into 64 bits the loop ends and sends
  \<open>chunks_from\<close>.
\<close>

lemma chunkLoop_chunks_from:
  "0 \<le> i \<Longrightarrow> 0 < s \<Longrightarrow> s dvd i \<Longrightarrow> n \<le> 0 \<or> last_start n s + s \<le> 2 ^ 63 - 1 \<Longrightarrow>
     chunkLoop i n s = Some (chunks_from i n s)"
proof (induction i n s rule: chunks_from.induct)
  case (1 i n s)
  show ?case
  proof (cases "i < n")
    case True
    have "i \<le> last_start n s"
      using 1(3,4) True by (intro multiple_le_last_start)
    then have "i + s < 2 ^ 63" using 1(2,5) True by auto
    then have w: "wrap_int64 (i + s) = i + s"
      using 1(2,3) by (intro wrap_int64_id) auto
    have ih: "chunkLoop (i + s) n s = Some (chunks_from (i + s) n s)"
      using 1 True by simp
    show ?thesis
      using True 1(3) w ih
      by (subst chunkLoop.simps, subst chunks_from.simps) (auto simp: Let_def min_def)
  next
    case False
    then show ?thesis
      by (subst chunkLoop.simps, subst chunks_from.simps) simp
  qed
qed

lemma chunkSlice_chunks_from:
  "0 < s \<Longrightarrow> n + s \<le> 2 ^ 63 \<Longrightarrow> chunkSlice n s = Some (chunks_from 0 n s)"
  unfolding chunkSlice_def using last_start_le[of s n] by (intro chunkLoop_chunks_from) auto

lemma upto_append: "i \<le> j \<Longrightarrow> j \<le> k + 1 \<Longrightarrow> [i..j - 1] @ [j..k] = [i..(k::int)]"
  using upto_split2[of i "j - 1" k] by (cases "i \<le> j - 1") (auto simp: upto_rec1)

lemma chunks_from_concat:
  "0 < s \<Longrightarrow> concat (map chunk_indices (chunks_from i n s)) = [i..n - 1]"
proof (induction i n s rule: chunks_from.induct)
  case (1 i n s)
  show ?case
  proof (cases "i < n")
    case True
    have ih: "concat (map chunk_indices (chunks_from (i + s) n s)) = [i + s..n - 1]"
      using 1 True by simp
    have unfold: "chunks_from i n s = \<lparr>From = i, To = min n (i + s)\<rparr> # chunks_from (i + s) n s"
      using True 1(2) by (rule chunks_from_Cons)
    have eq: "concat (map chunk_indices (chunks_from i n s)) =
        [i..min n (i + s) - 1] @ [i + s..n - 1]"
      unfolding unfold by (simp only: list.map concat.simps ih chunk_indices_def IndexChunk.simps)
    show ?thesis
    proof (cases "i + s \<le> n")
      case le: True
      then have "min n (i + s) = i + s" by simp
      then show ?thesis
        unfolding eq using upto_append[of i "i + s" "n - 1"] le 1(2) by simp
    next
      case False
      then have "min n (i + s) = n" "[i + s..n - 1] = []" by simp_all
      then show ?thesis unfolding eq by simp
    qed
  next
    case False
    then have "[i..n - 1] = []" by simp
    then show ?thesis using False by (simp add: chunks_from_Nil)
  qed
qed

lemma chunks_from_bounds:
  "c \<in> set (chunks_from i n s) \<Longrightarrow>
     i \<le> From c \<and> From c < To c \<and> To c \<le> From c + s \<and> To c \<le> n"
proof (induction i n s rule: chunks_from.induct)
  case (1 i n s)
  then show ?case
    by (subst (asm) (2) chunks_from.simps) (auto simp: min_def split: if_splits)
qed

lemma chunks_from_last:
  "chunks_from i n s \<noteq> [] \<Longrightarrow> To (last (chunks_from i n s)) = n"
proof (induction i n s rule: chunks_from.induct)
  case (1 i n s)
  from 1(2) have c: "i < n \<and> 0 < s"
    by (subst (asm) chunks_from.simps) (simp split: if_splits)
  show ?case
  proof (cases "chunks_from (i + s) n s = []")
    case True
    then have "\<not> i + s < n" using c by (subst (asm) chunks_from.simps) (simp split: if_splits)
    then show ?thesis using c True by (simp add: chunks_from_Cons min_def)
  next
    case False
    then show ?thesis using c 1(1) by (simp add: chunks_from_Cons)
  qed
qed

lemma chunks_from_adjacent:
  "Suc k < length (chunks_from i n s) \<Longrightarrow>
     To (chunks_from i n s ! k) = From (chunks_from i n s ! Suc k) \<and>
     To (chunks_from i n s ! k) = From (chunks_from i n s ! k) + s"
proof (induction i n s arbitrary: k rule: chunks_from.induct)
  case (1 i n s)
  from 1(2) have c: "i < n \<and> 0 < s"
    by (subst (asm) chunks_from.simps) (simp split: if_splits)
  have ne: "chunks_from (i + s) n s \<noteq> []"
    using 1(2) c by (auto simp: chunks_from_Cons)
  then have c2: "i + s < n"
    by (subst (asm) chunks_from.simps) (simp split: if_splits)
  show ?case
  proof (cases k)
    case 0
    then show ?thesis using c c2 by (simp add: chunks_from_Cons[of i] chunks_from_Cons[of "i + s"])
  next
    case (Suc k')
    then show ?thesis using c 1(1)[of k'] 1(2) by (simp add: chunks_from_Cons[of i])
  qed
qed

lemma chunks_from_hd:
  "chunks_from i n s \<noteq> [] \<Longrightarrow> From (hd (chunks_from i n s)) = i"
  by (subst chunks_from.simps, subst (asm) chunks_from.simps) (simp split: if_splits)

text \<open>
  With \<open>length = 2^63 - 1\<close> and \<open>chunkSize = 2^62\<close> the second addition overflows: the
  loop variable runs through \<open>0, 2^62, -2^63, -2^62, 0, ...\<close> and never reaches \<open>length\<close>.
\<close>

lemma chunkLoop_cycle:
  assumes "chunkLoop i n s = Some y"
  shows "\<not> (n = 2 ^ 63 - 1 \<and> s = 2 ^ 62 \<and> i \<in> {0, 2 ^ 62, - (2 ^ 63), - (2 ^ 62)})"
proof (rule chunkLoop.raw_induct
    [where P = "\<lambda>i n s y. \<not> (n = 2 ^ 63 - 1 \<and> s = 2 ^ 62 \<and> i \<in> {0, 2 ^ 62, - (2 ^ 63), - (2 ^ 62)})",
     OF _ assms])
  fix f :: "int \<Rightarrow> int \<Rightarrow> int \<Rightarrow> IndexChunk list option" and i n s :: int and y
  assume ih: "\<And>i n s y. f i n s = Some y \<Longrightarrow>
      \<not> (n = 2 ^ 63 - 1 \<and> s = 2 ^ 62 \<and> i \<in> {0, 2 ^ 62, - (2 ^ 63), - (2 ^ 62)})"
    and step: "(if i < n then
        (let to = wrap_int64 (i + s);
             idx = \<lparr>From = i, To = (if n < to then n else to)\<rparr>
         in Option.bind (f (wrap_int64 (i + s)) n s) (\<lambda>rest. Some (idx # rest)))
      else Some []) = Some y"
  show "\<not> (n = 2 ^ 63 - 1 \<and> s = 2 ^ 62 \<and> i \<in> {0, 2 ^ 62, - (2 ^ 63), - (2 ^ 62)})"
  proof
    assume a: "n = 2 ^ 63 - 1 \<and> s = 2 ^ 62 \<and> i \<in> {0, 2 ^ 62, - (2 ^ 63), - (2 ^ 62)}"
    then have lt: "i < n" by auto
    from a have nxt: "wrap_int64 (i + s) \<in> {0, 2 ^ 62, - (2 ^ 63), - (2 ^ 62)}"
      by (auto simp: wrap_int64_def)
    from step lt obtain r where "f (wrap_int64 (i + s)) n s = Some r"
      by (auto simp: Let_def split: bind_splits)
    from ih[OF this] a nxt show False by blast
  qed
qed

text \<open>
  Where the last addition does overflow, the range sent for it ends below zero: the bound
  of the theorem below cannot be relaxed.
\<close>

lemma wrap_int64_high:
  assumes "2 ^ 63 \<le> x" and "x < 2 ^ 64"
  shows "wrap_int64 x = x - 2 ^ 64"
proof -
  have "x + 2 ^ 63 = (x - 2 ^ 63) + 2 ^ 64" by simp
  then have "(x + 2 ^ 63) mod 2 ^ 64 = (x - 2 ^ 63) mod 2 ^ 64"
    by (metis mod_add_self2)
  also have "\<dots> = x - 2 ^ 63"
    using assms by (intro mod_pos_pos_trivial) simp_all
  finally show ?thesis by (simp add: wrap_int64_def)
qed

lemma chunkLoop_overflow:
  assumes S: "0 < s" "s < 2 ^ 63" and N: "n < 2 ^ 63"
    and ov: "2 ^ 63 \<le> last_start n s + s"
  shows "0 \<le> i \<Longrightarrow> s dvd i \<Longrightarrow> i \<le> last_start n s \<Longrightarrow> chunkLoop i n s = Some cs \<Longrightarrow>
           \<exists>c \<in> set cs. To c < 0"
proof (induction "nat (last_start n s - i)" arbitrary: i cs rule: less_induct)
  case less
  have ls: "last_start n s \<le> n - 1" using S(1) by (rule last_start_le)
  then have lt: "i < n" using less.prems(3) by simp
  show ?case
  proof (cases "i = last_start n s")
    case True
    have "i + s < 2 ^ 64" using lt N S(2) by simp
    then have w: "wrap_int64 (i + s) = i + s - 2 ^ 64"
      using ov True by (intro wrap_int64_high) simp_all
    have neg: "i + s - 2 ^ 64 < 0" using lt N S(2) by simp
    have "\<not> n < i + s - 2 ^ 64" using neg lt less.prems(1) by simp
    with less.prems(4) lt w obtain rest where
      "cs = \<lparr>From = i, To = i + s - 2 ^ 64\<rparr> # rest"
      by (subst (asm) chunkLoop.simps) (auto simp: Let_def split: bind_splits)
    with neg show ?thesis by simp
  next
    case False
    from less.prems(2) obtain k where k: "i = s * k" by (auto simp: dvd_def)
    have "s dvd last_start n s" by (simp add: last_start_def)
    then obtain m where m: "last_start n s = s * m" by (auto simp: dvd_def)
    have "k < m" using False less.prems(3) k m S(1) by (simp add: order.strict_iff_order)
    then have "k + 1 \<le> m" by simp
    then have "s * (k + 1) \<le> s * m" using S(1) by (intro mult_left_mono) simp_all
    then have next_le: "i + s \<le> last_start n s" using k m by (simp add: algebra_simps)
    then have "i + s < 2 ^ 63" using ls N by simp
    then have w: "wrap_int64 (i + s) = i + s"
      using less.prems(1) S(1) by (intro wrap_int64_id) auto
    from less.prems(4) lt w obtain rest where
      rest: "chunkLoop (i + s) n s = Some rest" and cs: "cs = \<lparr>From = i, To = (if n < i + s then n else i + s)\<rparr> # rest"
      by (subst (asm) chunkLoop.simps) (auto simp: Let_def split: bind_splits)
    have "\<exists>c \<in> set rest. To c < 0"
    proof (rule less.hyps[OF _ _ _ next_le rest])
      show "nat (last_start n s - (i + s)) < nat (last_start n s - i)"
        using S(1) next_le by simp
      show "0 \<le> i + s" using less.prems(1) S(1) by simp
      show "s dvd i + s" using less.prems(2) by simp
    qed
    then show ?thesis using cs by auto
  qed
qed

lemma chunkSlice_overflow:
  assumes "0 < N" "N < 2 ^ 63" "1 \<le> S" "S < 2 ^ 63" "2 ^ 63 \<le> last_start N S + S"
    and "chunkSlice N S = Some cs"
  shows "\<exists>c \<in> set cs. To c < 0"
proof -
  have "0 \<le> last_start N S"
    using assms(1,3) by (simp add: last_start_def pos_imp_zdiv_nonneg_iff)
  then show ?thesis
    using chunkLoop_overflow[of S N 0 cs] assms by (simp add: chunkSlice_def)
qed

text \<open>
  Claim C2, as the code has it. For all \<open>N \<ge> 0\<close> and \<open>S \<ge> 1\<close> for which no addition
  \<open>i + chunkSize\<close> of the loop overflows the 64-bit \<open>int\<close> (that is, \<open>N = 0\<close> or the start
  of the last range plus \<open>S\<close> is at most \<open>2^63 - 1\<close>; so whenever \<open>N + S \<le> 2^63\<close>),
  \<open>chunkSlice N S\<close> closes its channel after sending half-open ranges whose indices,
  concatenated, are exactly \<open>0, 1, ..., N - 1\<close> in increasing order. Every range is
  non-empty, has at most \<open>S\<close> indices and ends at or below \<open>N\<close>; each range but the last
  has exactly \<open>S\<close> indices and ends where the next one starts; the first starts at \<open>0\<close>
  and the last ends at \<open>N\<close>; for \<open>N = 0\<close> no range is sent.
\<close>

theorem chunkSlice_covers:
  assumes "0 \<le> N" and "1 \<le> S" and "N = 0 \<or> last_start N S + S \<le> 2 ^ 63 - 1"
  shows "\<exists>cs. chunkSlice N S = Some cs \<and>
           concat (map chunk_indices cs) = [0..N - 1] \<and>
           (\<forall>c \<in> set cs. From c < To c \<and> To c \<le> From c + S \<and> To c \<le> N) \<and>
           (\<forall>k. Suc k < length cs \<longrightarrow>
              To (cs ! k) = From (cs ! Suc k) \<and> To (cs ! k) = From (cs ! k) + S) \<and>
           (cs \<noteq> [] \<longrightarrow> From (hd cs) = 0 \<and> To (last cs) = N) \<and>
           (N = 0 \<longrightarrow> cs = [])"
proof -
  have S: "0 < S" using assms(2) by simp
  have run: "chunkSlice N S = Some (chunks_from 0 N S)"
    unfolding chunkSlice_def using S assms(3) by (intro chunkLoop_chunks_from) auto
  have cover: "concat (map chunk_indices (chunks_from 0 N S)) = [0..N - 1]"
    using S by (rule chunks_from_concat)
  have bounds: "\<forall>c \<in> set (chunks_from 0 N S). From c < To c \<and> To c \<le> From c + S \<and> To c \<le> N"
    using chunks_from_bounds[of _ 0 N S] by blast
  have adj: "\<forall>k. Suc k < length (chunks_from 0 N S) \<longrightarrow>
      To (chunks_from 0 N S ! k) = From (chunks_from 0 N S ! Suc k) \<and>
      To (chunks_from 0 N S ! k) = From (chunks_from 0 N S ! k) + S"
    using chunks_from_adjacent[of _ 0 N S] by blast
  have ends: "chunks_from 0 N S \<noteq> [] \<longrightarrow>
      From (hd (chunks_from 0 N S)) = 0 \<and> To (last (chunks_from 0 N S)) = N"
    using chunks_from_hd[of 0 N S] chunks_from_last[of 0 N S] by blast
  have zero: "N = 0 \<longrightarrow> chunks_from 0 N S = []"
    by (simp add: chunks_from_Nil)
  from run cover bounds adj ends zero show ?thesis by blast
qed

theorem chunkSlice_covers_witness:
  "(0::int) \<le> 5 \<and> (1::int) \<le> 2 \<and> last_start 5 2 + 2 \<le> 2 ^ 63 - 1 \<and>
   chunkSlice 5 2 = Some [\<lparr>From = 0, To = 2\<rparr>, \<lparr>From = 2, To = 4\<rparr>, \<lparr>From = 4, To = 5\<rparr>] \<and>
   (\<exists>cs. chunkSlice 5 2 = Some cs \<and> concat (map chunk_indices cs) = [0..5 - 1] \<and>
      To (last cs) = 5)"
proof -
  have run: "chunkSlice 5 2 = Some [\<lparr>From = 0, To = 2\<rparr>, \<lparr>From = 2, To = 4\<rparr>, \<lparr>From = 4, To = 5\<rparr>]"
    by code_simp
  have h: "last_start 5 2 + 2 \<le> 2 ^ 63 - 1" by (simp add: last_start_def)
  from chunkSlice_covers[of 5 2] h run show ?thesis by auto
qed

text \<open>
  The claim as stated, for all \<open>N \<ge> 0\<close> and \<open>S \<ge> 1\<close>, fails where the addition
  overflows: \<open>chunkSlice(9223372036854775807, 4611686018427387904)\<close> sends \<open>[0, 2^62)\<close>,
  then \<open>[2^62, -2^63)\<close>, and never closes the channel.
\<close>

theorem chunkSlice_overflow_counterexample:
  "chunkSlice 9223372036854775807 4611686018427387904 = None"
proof (cases "chunkSlice 9223372036854775807 4611686018427387904")
  case None
  then show ?thesis .
next
  case (Some y)
  then show ?thesis
    using chunkLoop_cycle[of 0 9223372036854775807 4611686018427387904 y]
    by (simp add: chunkSlice_def)
qed


section \<open>Properties of the bulk replace\<close>

lemma parts_Nil [simp]: "parts n [] = []"
  by (subst parts.simps) simp

lemma parts_Cons: "xs \<noteq> [] \<Longrightarrow> 0 < n \<Longrightarrow> parts n xs = take n xs # parts n (drop n xs)"
  by (subst parts.simps) simp

lemma slice_chunk:
  assumes "0 \<le> i" "i < int (length xs)" "0 < s"
  shows "slice xs i (min (int (length xs)) (i + s)) = Some (take (nat s) (drop (nat i) xs))"
proof -
  have "take (nat (min (int (length xs)) (i + s) - i)) (drop (nat i) xs) = take (nat s) (drop (nat i) xs)"
    using assms by (cases "i + s \<le> int (length xs)") (auto simp: min_def)
  then show ?thesis using assms by (simp add: slice_def min_def)
qed

lemma delete_chunks_parts:
  "0 \<le> i \<Longrightarrow> 0 < s \<Longrightarrow>
     delete_chunks (chunks_from i (int (length xs)) s) xs t =
     for_parts tx_Delete ''Failed to delete'' (parts (nat s) (drop (nat i) xs)) t"
proof (induction i "int (length xs)" s arbitrary: t rule: chunks_from.induct)
  case (1 i s)
  show ?case
  proof (cases "i < int (length xs)")
    case True
    have ne: "drop (nat i) xs \<noteq> []" using True 1 by simp
    have dd: "nat (i + s) = nat s + nat i"
      using 1(2,3) by (simp add: nat_add_distrib)
    have ih: "\<And>t. delete_chunks (chunks_from (i + s) (int (length xs)) s) xs t =
        for_parts tx_Delete ''Failed to delete'' (parts (nat s) (drop (nat (i + s)) xs)) t"
      using 1 True by simp
    show ?thesis
      using True 1(2,3) slice_chunk[of i xs s]
      by (simp add: chunks_from_Cons parts_Cons[OF ne] dd ih split: prod.splits option.splits)
  next
    case False
    then show ?thesis using 1 by (simp add: chunks_from_Nil)
  qed
qed

lemma insert_chunks_parts:
  "0 \<le> i \<Longrightarrow> 0 < s \<Longrightarrow>
     insert_chunks (chunks_from i (int (length xs)) s) xs t =
     for_parts tx_Create ''Failed to insert. err'' (parts (nat s) (drop (nat i) xs)) t"
proof (induction i "int (length xs)" s arbitrary: t rule: chunks_from.induct)
  case (1 i s)
  show ?case
  proof (cases "i < int (length xs)")
    case True
    have ne: "drop (nat i) xs \<noteq> []" using True 1 by simp
    have dd: "nat (i + s) = nat s + nat i"
      using 1(2,3) by (simp add: nat_add_distrib)
    have ih: "\<And>t. insert_chunks (chunks_from (i + s) (int (length xs)) s) xs t =
        for_parts tx_Create ''Failed to insert. err'' (parts (nat s) (drop (nat (i + s)) xs)) t"
      using 1 True by simp
    show ?thesis
      using True 1(2,3) slice_chunk[of i xs s]
      by (simp add: chunks_from_Cons parts_Cons[OF ne] dd ih split: prod.splits option.splits)
  next
    case False
    then show ?thesis using 1 by (simp add: chunks_from_Nil)
  qed
qed

lemma stmt_op_tx_Delete: "stmt_op SDeleteIDs tx_Delete"
  by (simp add: stmt_op_def tx_Delete_def tx_issue_def issue_def split: prod.splits option.splits)

lemma stmt_op_tx_Create: "stmt_op SCreate tx_Create"
  by (simp add: stmt_op_def tx_Create_def tx_issue_def issue_def split: prod.splits option.splits)

lemma advance_Nil [simp]: "advance [] c = c"
  by (simp add: advance_def)

lemma advance_append: "advance (xs @ ys) c = advance ys (advance xs c)"
  by (simp add: advance_def add.commute)

lemma issue_advance: "issue s c = (next_outcome c, advance [(s, next_outcome c)] c)"
  by (simp add: issue_def advance_def drop_Suc)

lemma for_parts_run:
  assumes op: "stmt_op mk f"
    and kind: "\<And>p err. step_error (mk p, Some err) = Some (Errorf prefix err)"
  shows "\<exists>t'. for_parts f prefix ps t =
            Done (verdict (issue_all (map mk ps) (db_faults (tx_conn t)))) t' \<and>
          tx_conn t' = advance (issue_all (map mk ps) (db_faults (tx_conn t))) (tx_conn t)"
proof (induction ps arbitrary: t)
  case Nil
  then show ?case by simp
next
  case (Cons p ps)
  obtain out t1 where f: "f p t = (out, t1)" by (cases "f p t")
  from op have "fst (f p t) = next_outcome (tx_conn t) \<and>
      tx_conn (snd (f p t)) = snd (issue (mk p) (tx_conn t))"
    unfolding stmt_op_def by blast
  with f have out: "out = next_outcome (tx_conn t)"
    and c1: "tx_conn t1 = advance [(mk p, out)] (tx_conn t)"
    by (simp_all add: issue_advance)
  have out': "out = (case db_faults (tx_conn t) of [] \<Rightarrow> None | f # fs \<Rightarrow> f)"
    using out by (simp add: next_outcome_def)
  show ?case
  proof (cases out)
    case None
    from Cons.IH[of t1] obtain t' where
      r: "for_parts f prefix ps t1 = Done (verdict (issue_all (map mk ps) (db_faults (tx_conn t1)))) t'"
      and a: "tx_conn t' = advance (issue_all (map mk ps) (db_faults (tx_conn t1))) (tx_conn t1)"
      by blast
    have fl: "db_faults (tx_conn t1) = tl (db_faults (tx_conn t))"
      using c1 by (simp add: advance_def drop_Suc)
    have nf: "\<not> step_failed (mk p, None)" by (simp add: step_failed_def)
    have steps: "issue_all (map mk (p # ps)) (db_faults (tx_conn t)) =
        (mk p, None) # issue_all (map mk ps) (db_faults (tx_conn t1))"
      using out' None nf fl by (simp add: Let_def)
    have adv: "advance ((mk p, None) # issue_all (map mk ps) (db_faults (tx_conn t1))) (tx_conn t) =
        advance (issue_all (map mk ps) (db_faults (tx_conn t1))) (advance [(mk p, None)] (tx_conn t))"
      by (simp add: advance_def add.commute)
    have c1': "tx_conn t1 = advance [(mk p, None)] (tx_conn t)"
      using c1 None by simp
    show ?thesis
      unfolding steps adv using f None r a unfolding c1'[symmetric]
      by (simp add: step_error.simps)
  next
    case (Some err)
    have fa: "step_failed (mk p, Some err)" by (simp add: step_failed_def kind)
    have steps: "issue_all (map mk (p # ps)) (db_faults (tx_conn t)) = [(mk p, Some err)]"
      using out' Some fa by (simp add: Let_def)
    show ?thesis
      using f Some c1 unfolding steps by (simp add: kind)
  qed
qed

lemma verdict_append:
  "verdict (xs @ ys) = (case verdict xs of None \<Rightarrow> verdict ys | Some e \<Rightarrow> Some e)"
  by (induction xs) (auto split: option.splits)

lemma issue_all_append:
  "issue_all (a @ b) fs =
     (if verdict (issue_all a fs) = None
      then issue_all a fs @ issue_all b (drop (length (issue_all a fs)) fs)
      else issue_all a fs)"
proof (induction a arbitrary: fs)
  case Nil
  then show ?case by simp
next
  case (Cons s a)
  show ?case
    by (cases fs) (auto simp: Let_def step_failed_def Cons.IH drop_Suc split: option.splits)
qed

lemma delete_phase_parts:
  assumes "int (length oldIDs) + 10000 \<le> 2 ^ 63"
  shows "delete_phase oldIDs (int (length oldIDs)) t =
           for_parts tx_Delete ''Failed to delete'' (parts 10000 oldIDs) t"
proof (cases "oldIDs = []")
  case True
  then show ?thesis by (simp add: delete_phase_def)
next
  case False
  have "chunkSlice (int (length oldIDs)) 10000 = Some (chunks_from 0 (int (length oldIDs)) 10000)"
    using assms by (intro chunkSlice_chunks_from) simp_all
  then show ?thesis
    using False delete_chunks_parts[of 0 10000 oldIDs t] by (simp add: delete_phase_def)
qed

lemma insert_phase_parts:
  assumes "int (length cpes) + 2000 \<le> 2 ^ 63"
  shows "insert_phase cpes t = for_parts tx_Create ''Failed to insert. err'' (parts 2000 cpes) t"
proof -
  have "chunkSlice (int (length cpes)) 2000 = Some (chunks_from 0 (int (length cpes)) 2000)"
    using assms by (intro chunkSlice_chunks_from) simp_all
  then show ?thesis
    using insert_chunks_parts[of 0 2000 cpes t] by (simp add: insert_phase_def)
qed

lemma phases_run:
  assumes b1: "int (length cpes) + 2000 \<le> 2 ^ 63"
    and b2: "int (length oldIDs) + 10000 \<le> 2 ^ 63"
  shows "\<exists>t'. (case delete_phase oldIDs (int (length oldIDs)) t of
                 Done None t2 \<Rightarrow> insert_phase cpes t2
               | r \<Rightarrow> r) =
            Done (verdict (issue_all (map SDeleteIDs (parts 10000 oldIDs) @ map SCreate (parts 2000 cpes))
                    (db_faults (tx_conn t)))) t' \<and>
          tx_conn t' =
            advance (issue_all (map SDeleteIDs (parts 10000 oldIDs) @ map SCreate (parts 2000 cpes))
                       (db_faults (tx_conn t))) (tx_conn t)"
proof -
  let ?ds = "map SDeleteIDs (parts 10000 oldIDs)"
  let ?cs = "map SCreate (parts 2000 cpes)"
  let ?sa = "issue_all ?ds (db_faults (tx_conn t))"
  from for_parts_run[OF stmt_op_tx_Delete, of "''Failed to delete''" "parts 10000 oldIDs" t]
  obtain t2 where d: "for_parts tx_Delete ''Failed to delete'' (parts 10000 oldIDs) t =
        Done (verdict ?sa) t2"
    and c2: "tx_conn t2 = advance ?sa (tx_conn t)"
    by auto
  show ?thesis
  proof (cases "verdict ?sa")
    case None
    from for_parts_run[OF stmt_op_tx_Create, of "''Failed to insert. err''" "parts 2000 cpes" t2]
    obtain t3 where i: "for_parts tx_Create ''Failed to insert. err'' (parts 2000 cpes) t2 =
          Done (verdict (issue_all ?cs (db_faults (tx_conn t2)))) t3"
      and c3: "tx_conn t3 = advance (issue_all ?cs (db_faults (tx_conn t2))) (tx_conn t2)"
      by auto
    have f2: "db_faults (tx_conn t2) = drop (length ?sa) (db_faults (tx_conn t))"
      using c2 by (simp add: advance_def)
    have all: "issue_all (?ds @ ?cs) (db_faults (tx_conn t)) =
        ?sa @ issue_all ?cs (db_faults (tx_conn t2))"
      using None f2 by (simp add: issue_all_append)
    show ?thesis
      unfolding all delete_phase_parts[OF b2] d
      using None i c3 c2
      by (simp add: insert_phase_parts[OF b1] verdict_append advance_append)
  next
    case (Some e)
    have all: "issue_all (?ds @ ?cs) (db_faults (tx_conn t)) = ?sa"
      using Some by (simp add: issue_all_append)
    show ?thesis
      unfolding all delete_phase_parts[OF b2] d using Some c2 by simp
  qed
qed

lemma length_old_ids: "length (old_ids fetchType st) \<le> length (categorized_cpes st)"
  by (simp add: old_ids_def)

lemma advance_Cons: "advance (x # xs) c = advance xs (advance [x] c)"
  by (simp add: advance_def add.commute)

lemma replace_body_run:
  assumes b1: "int (length cpes) + 2000 \<le> 2 ^ 63"
    and b2: "int (length (categorized_cpes (db_store conn))) + 10000 \<le> 2 ^ 63"
  shows "\<exists>t'. replace_body (Begin conn) fetchType cpes =
            Done (verdict (issue_all (plan fetchType (seen_ids conn fetchType) cpes) (db_faults conn))) t' \<and>
          tx_conn t' =
            advance (issue_all (plan fetchType (seen_ids conn fetchType) cpes) (db_faults conn))
              (record_stmt SBegin None conn)"
proof -
  let ?c0 = "record_stmt SBegin None conn"
  let ?sel = "SSelectIDs fetchType"
  let ?out = "next_outcome conn"
  let ?t1 = "(Begin conn)\<lparr>tx_conn := advance [(?sel, ?out)] ?c0\<rparr>"
  let ?rest = "map SDeleteIDs (parts 10000 (seen_ids conn fetchType)) @ map SCreate (parts 2000 cpes)"
  have out0: "next_outcome ?c0 = ?out" by (simp add: next_outcome_def record_stmt_def)
  have iss: "tx_issue ?sel (Begin conn) = (?out, ?t1)"
    by (simp add: tx_issue_def issue_advance Begin_def out0)
  have out': "?out = (case db_faults conn of [] \<Rightarrow> None | f # fs \<Rightarrow> f)"
    by (simp add: next_outcome_def)
  have f1: "db_faults (tx_conn ?t1) = tl (db_faults conn)"
    by (simp add: advance_def record_stmt_def drop_Suc)
  have w1: "work ?t1 = db_store conn" by (simp add: Begin_def)
  have b3: "int (length (seen_ids conn fetchType)) + 10000 \<le> 2 ^ 63"
    using b2 length_old_ids[of fetchType "db_store conn"]
    by (auto simp: seen_ids_def split: option.splits)
  from phases_run[OF b1 b3, of ?t1]
  obtain t' where ph: "(case delete_phase (seen_ids conn fetchType) (int (length (seen_ids conn fetchType))) ?t1 of
                 Done None t2 \<Rightarrow> insert_phase cpes t2
               | r \<Rightarrow> r) = Done (verdict (issue_all ?rest (tl (db_faults conn)))) t'"
    and c': "tx_conn t' = advance (issue_all ?rest (tl (db_faults conn))) (tx_conn ?t1)"
    unfolding f1 by blast
  have c'': "tx_conn t' = advance ((?sel, ?out) # issue_all ?rest (tl (db_faults conn))) ?c0"
    using c' by (subst advance_Cons) simp
  show ?thesis
  proof (cases "step_failed (?sel, ?out)")
    case True
    then obtain err where e: "?out = Some err" and nf: "\<not> errors_Is_ErrRecordNotFound err"
      by (cases ?out) (auto simp: step_failed_def split: if_splits)
    have steps: "issue_all (plan fetchType (seen_ids conn fetchType) cpes) (db_faults conn) =
        [(?sel, Some err)]"
      using True e out' by (simp add: plan_def Let_def)
    show ?thesis
      unfolding steps using iss e nf
      by (simp add: replace_body_def tx_Find_ids_def errors_Is_def)
  next
    case False
    have steps: "issue_all (plan fetchType (seen_ids conn fetchType) cpes) (db_faults conn) =
        (?sel, ?out) # issue_all ?rest (tl (db_faults conn))"
      using False out' by (simp add: plan_def Let_def)
    have se: "step_error (?sel, ?out) = None"
      using False by (simp add: step_failed_def)
    show ?thesis
    proof (cases ?out)
      case None
      have ids: "seen_ids conn fetchType = old_ids fetchType (db_store conn)"
        using None by (simp add: seen_ids_def)
      show ?thesis
        unfolding steps using iss None ph c'' se w1
        by (simp add: replace_body_def tx_Find_ids_def ids old_ids_def Let_def errors_Is_def)
    next
      case (Some err)
      then have is_nf: "errors_Is_ErrRecordNotFound err"
        using False by (simp add: step_failed_def split: if_splits)
      have ids: "seen_ids conn fetchType = []"
        using Some by (simp add: seen_ids_def)
      show ?thesis
        unfolding steps using iss Some ph c'' se is_nf
        by (simp add: replace_body_def tx_Find_ids_def ids errors_Is_def)
    qed
  qed
qed

lemma next_outcome_advance:
  "next_outcome (advance steps (record_stmt s out c)) = outcome_at (db_faults c) (length steps)"
  by (simp add: next_outcome_def advance_def record_stmt_def outcome_at_def)

lemma replace_run:
  assumes b1: "int (length cpes) + 2000 \<le> 2 ^ 63"
    and b2: "int (length (categorized_cpes (db_store conn))) + 10000 \<le> 2 ^ 63"
  shows "\<exists>conn'. deleteAndInsertCpes conn fetchType cpes =
            Ret (verdict (issue_all (plan fetchType (seen_ids conn fetchType) cpes) (db_faults conn))) conn' \<and>
          db_trace conn' = db_trace conn @ (SBegin, None) #
            issue_all (plan fetchType (seen_ids conn fetchType) cpes) (db_faults conn) @
            [closing (verdict (issue_all (plan fetchType (seen_ids conn fetchType) cpes) (db_faults conn)))
               (db_faults conn)
               (length (issue_all (plan fetchType (seen_ids conn fetchType) cpes) (db_faults conn)))] \<and>
          (verdict (issue_all (plan fetchType (seen_ids conn fetchType) cpes) (db_faults conn)) \<noteq> None
             \<longrightarrow> db_store conn' = db_store conn)"
proof -
  let ?steps = "issue_all (plan fetchType (seen_ids conn fetchType) cpes) (db_faults conn)"
  from replace_body_run[OF b1 b2, of fetchType]
  obtain t' where r: "replace_body (Begin conn) fetchType cpes = Done (verdict ?steps) t'"
    and c: "tx_conn t' = advance ?steps (record_stmt SBegin None conn)"
    by blast
  have no: "next_outcome (tx_conn t') = outcome_at (db_faults conn) (length ?steps)"
    unfolding c by (rule next_outcome_advance)
  show ?thesis
  proof (cases "verdict ?steps")
    case None
    have tr: "db_trace (Commit t') = db_trace conn @ (SBegin, None) # ?steps @
        [(SCommit, outcome_at (db_faults conn) (length ?steps))]"
      using no c
      by (cases "outcome_at (db_faults conn) (length ?steps)")
        (simp_all add: Commit_def issue_def advance_def record_stmt_def)
    show ?thesis
      using None tr by (simp add: deleteAndInsertCpes_def r deferred_def closing_def)
  next
    case (Some e)
    have tr: "db_trace (Rollback t') = db_trace conn @ (SBegin, None) # ?steps @ [(SRollback, None)]"
      and st: "db_store (Rollback t') = db_store conn"
      using c by (simp_all add: Rollback_def advance_def record_stmt_def)
    show ?thesis
      using Some tr st by (simp add: deleteAndInsertCpes_def r deferred_def closing_def)
  qed
qed

lemma issue_all_butlast: "\<forall>x \<in> set (butlast (issue_all ss fs)). \<not> step_failed x"
  by (induction ss arbitrary: fs) (auto simp: Let_def)

lemma issue_all_verdict:
  "verdict (issue_all ss fs) =
     (if issue_all ss fs = [] then None else step_error (last (issue_all ss fs)))"
proof (induction ss arbitrary: fs)
  case Nil
  then show ?case by simp
next
  case (Cons s ss)
  show ?case
  proof (cases "step_failed (s, case fs of [] \<Rightarrow> None | f # fs' \<Rightarrow> f)")
    case True
    then show ?thesis by (auto simp: Let_def step_failed_def)
  next
    case False
    then show ?thesis using Cons.IH[of "tl fs"] by (auto simp: Let_def step_failed_def)
  qed
qed

lemma issue_all_verdict_None:
  "verdict (issue_all ss fs) = None \<longleftrightarrow> (\<forall>x \<in> set (issue_all ss fs). \<not> step_failed x)"
  by (induction ss arbitrary: fs) (auto simp: Let_def step_failed_def split: option.splits)

lemma issue_all_prefix: "map fst (issue_all ss fs) = take (length (issue_all ss fs)) ss"
  by (induction ss arbitrary: fs) (auto simp: Let_def)

lemma issue_all_complete: "verdict (issue_all ss fs) = None \<Longrightarrow> map fst (issue_all ss fs) = ss"
  by (induction ss arbitrary: fs) (auto simp: Let_def step_failed_def split: option.splits)

lemma issue_all_outcomes:
  "map snd (issue_all ss fs) = next_outcomes fs (length (issue_all ss fs))"
  by (induction ss arbitrary: fs) (auto simp: Let_def)

lemma parts_concat: "0 < n \<Longrightarrow> concat (parts n xs) = xs"
proof (induction n xs rule: parts.induct)
  case (1 n xs)
  then show ?case by (cases "xs = []") (simp_all add: parts_Cons)
qed

lemma parts_sizes: "p \<in> set (parts n xs) \<Longrightarrow> 0 < length p \<and> length p \<le> n"
proof (induction n xs rule: parts.induct)
  case (1 n xs)
  from 1(2) have c: "xs \<noteq> [] \<and> 0 < n"
    by (subst (asm) parts.simps) (simp split: if_splits)
  then show ?case using 1 by (auto simp: parts_Cons)
qed

lemma parts_full: "p \<in> set (butlast (parts n xs)) \<Longrightarrow> length p = n"
proof (induction n xs rule: parts.induct)
  case (1 n xs)
  from 1(2) have c: "xs \<noteq> [] \<and> 0 < n"
    by (subst (asm) parts.simps) (auto split: if_splits)
  show ?case
  proof (cases "drop n xs = []")
    case True
    then show ?thesis using 1(2) c by (simp add: parts_Cons)
  next
    case False
    then have "parts n (drop n xs) \<noteq> []" using c by (simp add: parts_Cons)
    then show ?thesis using 1 c False by (auto simp: parts_Cons)
  qed
qed

text \<open>
  Claim C1. For every fetch type and every batch, \<open>deleteAndInsertCpes\<close> returns, and the
  statements it issued between \<open>Begin\<close> and the end of the transaction are a beginning
  of the replace (the select of the old ids, the delete chunks, the insert chunks), each
  with the outcome the backend gave it. No statement is issued after one that failed. The
  function returns an error exactly when a step failed, and then the transaction ends
  with \<open>Rollback\<close>, the committed store is the one from before the call, and the error is
  the backend's error of the failed step wrapped with the message of its phase
  (\<open>Failed to select old defs\<close>, \<open>Failed to delete\<close>, \<open>Failed to insert. err\<close>). Only when
  no step failed does the transaction end with \<open>Commit\<close>, recorded with the outcome the
  backend gives it, which the function does not read. (The source does not take a
  record-not-found answer to the select for a failure. The two bounds say that the batch
  and the table have lengths a Go slice can have.)
\<close>

theorem deleteAndInsertCpes_atomic:
  assumes "int (length cpes) + 2000 \<le> 2 ^ 63"
    and "int (length (categorized_cpes (db_store conn))) + 10000 \<le> 2 ^ 63"
  shows "\<exists>err conn' steps.
           deleteAndInsertCpes conn fetchType cpes = Ret err conn' \<and>
           db_trace conn' = db_trace conn @ (SBegin, None) # steps @
             [closing err (db_faults conn) (length steps)] \<and>
           map fst steps = take (length steps) (plan fetchType (seen_ids conn fetchType) cpes) \<and>
           map snd steps = next_outcomes (db_faults conn) (length steps) \<and>
           (\<forall>x \<in> set (butlast steps). \<not> step_failed x) \<and>
           (err = None \<longleftrightarrow> (\<forall>x \<in> set steps. \<not> step_failed x)) \<and>
           (\<forall>e. err = Some e \<longrightarrow>
              db_store conn' = db_store conn \<and>
              (\<exists>s u. last steps = (s, Some u) \<and> e = Errorf (phase_prefix s) u))"
proof -
  let ?steps = "issue_all (plan fetchType (seen_ids conn fetchType) cpes) (db_faults conn)"
  from replace_run[OF assms, of fetchType] obtain conn' where
    r: "deleteAndInsertCpes conn fetchType cpes = Ret (verdict ?steps) conn'"
    and tr: "db_trace conn' = db_trace conn @ (SBegin, None) # ?steps @
            [closing (verdict ?steps) (db_faults conn) (length ?steps)]"
    and st: "verdict ?steps \<noteq> None \<longrightarrow> db_store conn' = db_store conn"
    by blast
  have wrapped: "\<forall>e. verdict ?steps = Some e \<longrightarrow>
      (\<exists>s u. last ?steps = (s, Some u) \<and> e = Errorf (phase_prefix s) u)"
  proof (intro allI impI)
    fix e assume v: "verdict ?steps = Some e"
    then have se: "step_error (last ?steps) = Some e"
      using issue_all_verdict[of "plan fetchType (seen_ids conn fetchType) cpes" "db_faults conn"]
      by (simp split: if_splits)
    obtain s out where l: "last ?steps = (s, out)" by (cases "last ?steps")
    from se l obtain u where "out = Some u" by (cases out) auto
    with se l show "\<exists>s u. last ?steps = (s, Some u) \<and> e = Errorf (phase_prefix s) u"
      by (cases s) (auto split: if_splits)
  qed
  from r tr st wrapped issue_all_prefix issue_all_outcomes issue_all_butlast
    issue_all_verdict_None[of "plan fetchType (seen_ids conn fetchType) cpes" "db_faults conn"]
  show ?thesis
    by (intro exI[of _ "verdict ?steps"] exI[of _ conn'] exI[of _ ?steps]) auto
qed

theorem deleteAndInsertCpes_atomic_witness:
  "int (length [cpe_d]) + 2000 \<le> 2 ^ 63 \<and>
   int (length (categorized_cpes (db_store
      (example_conn [None, None, Some (BackendError ''disk full'')])))) + 10000 \<le> 2 ^ 63 \<and>
   deleteAndInsertCpes (example_conn [None, None, Some (BackendError ''disk full'')]) ''nvd'' [cpe_d] =
     Ret (Some (Errorf ''Failed to insert. err'' (BackendError ''disk full'')))
       \<lparr>db_store = example_store, db_faults = [],
        db_trace = [(SBegin, None), (SSelectIDs ''nvd'', None), (SDeleteIDs [1, 3], None),
                    (SCreate [cpe_d], Some (BackendError ''disk full'')), (SRollback, None)]\<rparr> \<and>
   (\<exists>err conn' steps.
      deleteAndInsertCpes (example_conn [None, None, Some (BackendError ''disk full'')]) ''nvd'' [cpe_d] =
        Ret err conn' \<and>
      db_trace conn' = db_trace (example_conn [None, None, Some (BackendError ''disk full'')]) @
        (SBegin, None) # steps @ [closing err (db_faults (example_conn [None, None, Some (BackendError ''disk full'')]))
                                    (length steps)] \<and>
      (err = None \<longleftrightarrow> (\<forall>x \<in> set steps. \<not> step_failed x)) \<and>
      (\<forall>e. err = Some e \<longrightarrow>
         db_store conn' = db_store (example_conn [None, None, Some (BackendError ''disk full'')]) \<and>
         (\<exists>s u. last steps = (s, Some u) \<and> e = Errorf (phase_prefix s) u)))"
proof -
  let ?c = "example_conn [None, None, Some (BackendError ''disk full'')]"
  have h1: "int (length [cpe_d]) + 2000 \<le> 2 ^ 63" by simp
  have h2: "int (length (categorized_cpes (db_store ?c))) + 10000 \<le> 2 ^ 63"
    by (simp add: example_conn_def example_store_def)
  have ev: "deleteAndInsertCpes ?c ''nvd'' [cpe_d] =
     Ret (Some (Errorf ''Failed to insert. err'' (BackendError ''disk full'')))
       \<lparr>db_store = example_store, db_faults = [],
        db_trace = [(SBegin, None), (SSelectIDs ''nvd'', None), (SDeleteIDs [1, 3], None),
                    (SCreate [cpe_d], Some (BackendError ''disk full'')), (SRollback, None)]\<rparr>"
    by code_simp
  from deleteAndInsertCpes_atomic[OF h1 h2, of "''nvd''"] obtain err conn' steps where
    "deleteAndInsertCpes ?c ''nvd'' [cpe_d] = Ret err conn'"
    "db_trace conn' = db_trace ?c @ (SBegin, None) # steps @
        [closing err (db_faults ?c) (length steps)]"
    "err = None \<longleftrightarrow> (\<forall>x \<in> set steps. \<not> step_failed x)"
    "\<forall>e. err = Some e \<longrightarrow> db_store conn' = db_store ?c \<and>
         (\<exists>s u. last steps = (s, Some u) \<and> e = Errorf (phase_prefix s) u)"
    by blast
  then have "\<exists>err conn' steps.
      deleteAndInsertCpes ?c ''nvd'' [cpe_d] = Ret err conn' \<and>
      db_trace conn' = db_trace ?c @
        (SBegin, None) # steps @ [closing err (db_faults ?c) (length steps)] \<and>
      (err = None \<longleftrightarrow> (\<forall>x \<in> set steps. \<not> step_failed x)) \<and>
      (\<forall>e. err = Some e \<longrightarrow>
         db_store conn' = db_store ?c \<and>
         (\<exists>s u. last steps = (s, Some u) \<and> e = Errorf (phase_prefix s) u))"
    by blast
  with h1 h2 ev show ?thesis by blast
qed

text \<open>
  Claim C6. In every replace the statements issued are, in this order and inside the one
  transaction opened by \<open>Begin\<close> and closed by the single \<open>Commit\<close> or \<open>Rollback\<close>: the
  select of the old ids of the batch's fetch type, one delete statement for each piece of
  10000 of those ids, one insert statement for each piece of 2000 of the new entries (a
  beginning of that list when a step fails, all of it when the call succeeds). The pieces
  put together are the ids, and the entries: every piece but the last has exactly 10000
  ids (2000 entries), the last one has the rest; there is no delete statement when no
  entry of the fetch type exists.
\<close>

theorem deleteAndInsertCpes_chunked:
  assumes "int (length cpes) + 2000 \<le> 2 ^ 63"
    and "int (length (categorized_cpes (db_store conn))) + 10000 \<le> 2 ^ 63"
  shows "\<exists>err conn' steps.
           deleteAndInsertCpes conn fetchType cpes = Ret err conn' \<and>
           db_trace conn' = db_trace conn @ (SBegin, None) # steps @
             [closing err (db_faults conn) (length steps)] \<and>
           map fst steps =
             take (length steps)
               (SSelectIDs fetchType #
                map SDeleteIDs (parts 10000 (seen_ids conn fetchType)) @
                map SCreate (parts 2000 cpes)) \<and>
           (err = None \<longrightarrow>
              map fst steps =
                SSelectIDs fetchType #
                map SDeleteIDs (parts 10000 (seen_ids conn fetchType)) @
                map SCreate (parts 2000 cpes)) \<and>
           concat (parts 10000 (seen_ids conn fetchType)) = seen_ids conn fetchType \<and>
           (\<forall>p \<in> set (parts 10000 (seen_ids conn fetchType)). 0 < length p \<and> length p \<le> 10000) \<and>
           (\<forall>p \<in> set (butlast (parts 10000 (seen_ids conn fetchType))). length p = 10000) \<and>
           (old_ids fetchType (db_store conn) = [] \<longrightarrow> parts 10000 (seen_ids conn fetchType) = []) \<and>
           concat (parts 2000 cpes) = cpes \<and>
           (\<forall>p \<in> set (parts 2000 cpes). 0 < length p \<and> length p \<le> 2000) \<and>
           (\<forall>p \<in> set (butlast (parts 2000 cpes)). length p = 2000)"
proof -
  let ?steps = "issue_all (plan fetchType (seen_ids conn fetchType) cpes) (db_faults conn)"
  from replace_run[OF assms, of fetchType] obtain conn' where
    r: "deleteAndInsertCpes conn fetchType cpes = Ret (verdict ?steps) conn'"
    and tr: "db_trace conn' = db_trace conn @ (SBegin, None) # ?steps @
            [closing (verdict ?steps) (db_faults conn) (length ?steps)]"
    by blast
  have pre: "map fst ?steps = take (length ?steps) (plan fetchType (seen_ids conn fetchType) cpes)"
    by (rule issue_all_prefix)
  have full: "verdict ?steps = None \<longrightarrow> map fst ?steps = plan fetchType (seen_ids conn fetchType) cpes"
    using issue_all_complete by blast
  have none: "old_ids fetchType (db_store conn) = [] \<longrightarrow> parts 10000 (seen_ids conn fetchType) = []"
    by (simp add: seen_ids_def split: option.splits)
  have d1: "concat (parts 10000 (seen_ids conn fetchType)) = seen_ids conn fetchType"
    by (simp add: parts_concat)
  have d2: "\<forall>p \<in> set (parts 10000 (seen_ids conn fetchType)). 0 < length p \<and> length p \<le> 10000"
    using parts_sizes by blast
  have d3: "\<forall>p \<in> set (butlast (parts 10000 (seen_ids conn fetchType))). length p = 10000"
    using parts_full by blast
  have c1: "concat (parts 2000 cpes) = cpes"
    by (simp add: parts_concat)
  have c2: "\<forall>p \<in> set (parts 2000 cpes). 0 < length p \<and> length p \<le> 2000"
    using parts_sizes by blast
  have c3: "\<forall>p \<in> set (butlast (parts 2000 cpes)). length p = 2000"
    using parts_full by blast
  show ?thesis
    apply (intro exI[of _ "verdict ?steps"] exI[of _ conn'] exI[of _ ?steps])
    using r tr pre full none d1 d2 d3 c1 c2 c3 unfolding plan_def by blast
qed


theorem deleteAndInsertCpes_chunked_witness:
  "int (length (replicate 4500 cpe_d)) + 2000 \<le> 2 ^ 63 \<and>
   int (length [cpe_d]) + 2000 \<le> 2 ^ 63 \<and>
   int (length (categorized_cpes (db_store (example_conn [])))) + 10000 \<le> 2 ^ 63 \<and>
   parts 10000 (seen_ids (example_conn []) ''nvd'') = [[1, 3]] \<and>
   parts 2000 (replicate 4500 cpe_d) =
     [replicate 2000 cpe_d, replicate 2000 cpe_d, replicate 500 cpe_d] \<and>
   (\<exists>err conn' steps.
      deleteAndInsertCpes (example_conn []) ''nvd'' (replicate 4500 cpe_d) = Ret err conn' \<and>
      db_trace conn' = db_trace (example_conn []) @ (SBegin, None) # steps @
        [closing err (db_faults (example_conn [])) (length steps)] \<and>
      map fst steps =
        take (length steps)
          [SSelectIDs ''nvd'', SDeleteIDs [1, 3], SCreate (replicate 2000 cpe_d),
           SCreate (replicate 2000 cpe_d), SCreate (replicate 500 cpe_d)]) \<and>
   (\<exists>conn' steps.
      deleteAndInsertCpes (example_conn []) ''nvd'' [cpe_d] = Ret None conn' \<and>
      db_trace conn' = (SBegin, None) # steps @ [(SCommit, None)] \<and>
      map fst steps = [SSelectIDs ''nvd'', SDeleteIDs [1, 3], SCreate [cpe_d]])"
proof -
  let ?c = "example_conn []"
  let ?cpes = "replicate 4500 cpe_d"
  have h1: "int (length ?cpes) + 2000 \<le> 2 ^ 63" by simp
  have h1': "int (length [cpe_d]) + 2000 \<le> 2 ^ 63" by simp
  have h2: "int (length (categorized_cpes (db_store ?c))) + 10000 \<le> 2 ^ 63"
    by (simp add: example_conn_def example_store_def)
  have ids: "seen_ids ?c ''nvd'' = [1, 3]"
    by (simp add: seen_ids_def next_outcome_def example_conn_def old_ids_def example_store_def
        cpe_a_def cpe_b_def cpe_c_def)
  have p1: "parts 10000 (seen_ids ?c ''nvd'') = [[1, 3]]"
    unfolding ids by (simp add: parts_Cons)
  have "parts 2000 (replicate 4500 cpe_d) =
      replicate 2000 cpe_d # parts 2000 (replicate 2500 cpe_d)"
    by (subst parts_Cons) simp_all
  also have "parts 2000 (replicate 2500 cpe_d) =
      replicate 2000 cpe_d # parts 2000 (replicate 500 cpe_d)"
    by (subst parts_Cons) simp_all
  also have "parts 2000 (replicate 500 cpe_d) = [replicate 500 cpe_d]"
    by (subst parts_Cons) simp_all
  finally have p2: "parts 2000 (replicate 4500 cpe_d) =
     [replicate 2000 cpe_d, replicate 2000 cpe_d, replicate 500 cpe_d]" .
  have p3: "parts 2000 [cpe_d] = [[cpe_d]]"
    by (subst parts_Cons) simp_all
  from deleteAndInsertCpes_chunked[OF h1 h2, of "''nvd''"] obtain err conn' steps where
    "deleteAndInsertCpes ?c ''nvd'' ?cpes = Ret err conn'"
    "db_trace conn' = db_trace ?c @ (SBegin, None) # steps @
        [closing err (db_faults ?c) (length steps)]"
    "map fst steps =
        take (length steps)
          (SSelectIDs ''nvd'' #
           map SDeleteIDs (parts 10000 (seen_ids ?c ''nvd'')) @
           map SCreate (parts 2000 ?cpes))"
    by blast
  then have big: "\<exists>err conn' steps.
      deleteAndInsertCpes ?c ''nvd'' ?cpes = Ret err conn' \<and>
      db_trace conn' = db_trace ?c @ (SBegin, None) # steps @
        [closing err (db_faults ?c) (length steps)] \<and>
      map fst steps =
        take (length steps)
          [SSelectIDs ''nvd'', SDeleteIDs [1, 3], SCreate (replicate 2000 cpe_d),
           SCreate (replicate 2000 cpe_d), SCreate (replicate 500 cpe_d)]"
    unfolding p1 p2 by auto
  have ev: "deleteAndInsertCpes ?c ''nvd'' [cpe_d] =
     Ret None \<lparr>db_store = example_store\<lparr>categorized_cpes := [(2, cpe_c), (3, cpe_d)]\<rparr>,
               db_faults = [],
               db_trace = [(SBegin, None), (SSelectIDs ''nvd'', None), (SDeleteIDs [1, 3], None),
                           (SCreate [cpe_d], None), (SCommit, None)]\<rparr>"
    by code_simp
  from deleteAndInsertCpes_chunked[OF h1' h2, of "''nvd''"] obtain err conn' steps where
    r: "deleteAndInsertCpes ?c ''nvd'' [cpe_d] = Ret err conn'"
    and t: "db_trace conn' = db_trace ?c @ (SBegin, None) # steps @
        [closing err (db_faults ?c) (length steps)]"
    and f: "err = None \<longrightarrow>
        map fst steps =
          SSelectIDs ''nvd'' #
          map SDeleteIDs (parts 10000 (seen_ids ?c ''nvd'')) @
          map SCreate (parts 2000 [cpe_d])"
    by (elim exE conjE) (rule that, assumption+)
  from r ev have e: "err = None" by simp
  have small: "\<exists>conn' steps.
      deleteAndInsertCpes ?c ''nvd'' [cpe_d] = Ret None conn' \<and>
      db_trace conn' = (SBegin, None) # steps @ [(SCommit, None)] \<and>
      map fst steps = [SSelectIDs ''nvd'', SDeleteIDs [1, 3], SCreate [cpe_d]]"
    using r t f e unfolding p1 p3
    by (intro exI[of _ conn'] exI[of _ steps])
      (simp add: example_conn_def closing_def outcome_at_def)
  from h1 h1' h2 p1 p2 big small show ?thesis by blast
qed

lemma all_None_next_outcome: "set (db_faults c) \<subseteq> {None} \<Longrightarrow> next_outcome c = None"
  by (cases "db_faults c") (auto simp: next_outcome_def)

lemma Commit_ok:
  assumes "next_outcome (tx_conn t) = None"
  shows "Commit t = (advance [(SCommit, None)] (tx_conn t))\<lparr>db_store := work t\<rparr>"
  using assms by (simp add: Commit_def issue_advance)

lemma tx_Delete_ok:
  assumes "next_outcome (tx_conn t) = None"
  shows "tx_Delete ids t =
     (None, \<lparr>tx_conn = advance [(SDeleteIDs ids, None)] (tx_conn t),
             work = (work t)\<lparr>categorized_cpes :=
                      filter (\<lambda>r. fst r \<notin> set ids) (categorized_cpes (work t))\<rparr>\<rparr>)"
  using assms by (simp add: tx_Delete_def tx_issue_def issue_advance)

lemma for_parts_delete_ok:
  assumes "\<forall>f \<in> set (db_faults (tx_conn t)). f = None"
  shows "for_parts tx_Delete prefix ps t =
     Done None \<lparr>tx_conn = advance (map (\<lambda>p. (SDeleteIDs p, None)) ps) (tx_conn t),
                work = (work t)\<lparr>categorized_cpes :=
                         filter (\<lambda>r. fst r \<notin> set (concat ps)) (categorized_cpes (work t))\<rparr>\<rparr>"
  using assms
proof (induction ps arbitrary: t)
  case Nil
  then show ?case by simp
next
  case (Cons p ps)
  have no: "next_outcome (tx_conn t) = None"
    using Cons.prems by (cases "db_faults (tx_conn t)") (auto simp: next_outcome_def)
  let ?t1 = "\<lparr>tx_conn = advance [(SDeleteIDs p, None)] (tx_conn t),
             work = (work t)\<lparr>categorized_cpes :=
                      filter (\<lambda>r. fst r \<notin> set p) (categorized_cpes (work t))\<rparr>\<rparr>"
  have fl: "\<forall>f \<in> set (db_faults (tx_conn ?t1)). f = None"
    using Cons.prems by (auto simp: advance_def dest: in_set_dropD)
  have adv: "advance (map (\<lambda>p. (SDeleteIDs p, None)) ps) (advance [(SDeleteIDs p, None)] (tx_conn t)) =
      advance (map (\<lambda>p. (SDeleteIDs p, None)) (p # ps)) (tx_conn t)"
    by (simp add: advance_def add.commute)
  have flt: "filter (\<lambda>r. fst r \<notin> set (concat ps)) (filter (\<lambda>r. fst r \<notin> set p) (categorized_cpes (work t))) =
      filter (\<lambda>r. fst r \<notin> set (concat (p # ps))) (categorized_cpes (work t))"
    by (auto intro: filter_cong)
  show ?case
    using Cons.IH[OF fl] adv flt by (simp add: tx_Delete_ok[OF no])
qed

lemma old_ids_removed:
  "\<forall>r \<in> set (filter (\<lambda>r. fst r \<notin> set (old_ids fetchType st)) (categorized_cpes st)).
     FetchType (snd r) \<noteq> fetchType"
  by (force simp: old_ids_def)

lemma old_ids_distinct:
  assumes "distinct (map fst (categorized_cpes st))"
  shows "filter (\<lambda>r. fst r \<notin> set (old_ids fetchType st)) (categorized_cpes st) =
         filter (\<lambda>r. FetchType (snd r) \<noteq> fetchType) (categorized_cpes st)"
proof (rule filter_cong[OF refl])
  fix r assume r: "r \<in> set (categorized_cpes st)"
  show "(fst r \<notin> set (old_ids fetchType st)) = (FetchType (snd r) \<noteq> fetchType)"
  proof
    assume "fst r \<notin> set (old_ids fetchType st)"
    then show "FetchType (snd r) \<noteq> fetchType" using r by (force simp: old_ids_def)
  next
    assume ne: "FetchType (snd r) \<noteq> fetchType"
    show "fst r \<notin> set (old_ids fetchType st)"
    proof
      assume "fst r \<in> set (old_ids fetchType st)"
      then obtain r' where r': "r' \<in> set (categorized_cpes st)" "fst r' = fst r"
        "FetchType (snd r') = fetchType"
        by (auto simp: old_ids_def)
      from assms r r' have "r' = r"
        by (metis eq_key_imp_eq_value prod.collapse)
      with r' ne show False by simp
    qed
  qed
qed

text \<open>
  The result of \<^verbatim>\<open>tx.Commit()\<close> is discarded: when the commit fails the call still returns
  no error, and nothing is deleted.
\<close>

lemma InsertCpes_empty_commit_fails:
  "InsertCpes (example_conn [None, None, Some (BackendError ''database is locked'')]) ''nvd'' [] =
     Ret None \<lparr>db_store = example_store, db_faults = [],
               db_trace = [(SBegin, None), (SSelectIDs ''nvd'', None), (SDeleteIDs [1, 3], None),
                           (SCommit, Some (BackendError ''database is locked''))]\<rparr>"
  by code_simp

text \<open>
  Claim C10. When the backend fails no statement, the commit included, \<open>InsertCpes\<close> with an
  empty batch returns no error, issues the select and the delete statements but no insert
  statement, and commits: the rows with the ids of the fetch type are gone, no row of the fetch type is
  left, and, ids being a primary key, the rows of the other fetch types are all kept.
\<close>

theorem InsertCpes_empty:
  assumes ok: "set (db_faults conn) \<subseteq> {None}"
    and b2: "int (length (categorized_cpes (db_store conn))) + 10000 \<le> 2 ^ 63"
  shows "\<exists>conn'. InsertCpes conn fetchType [] = Ret None conn' \<and>
           categorized_cpes (db_store conn') =
             filter (\<lambda>r. fst r \<notin> set (old_ids fetchType (db_store conn)))
               (categorized_cpes (db_store conn)) \<and>
           (\<forall>r \<in> set (categorized_cpes (db_store conn')). FetchType (snd r) \<noteq> fetchType) \<and>
           (distinct (map fst (categorized_cpes (db_store conn))) \<longrightarrow>
              categorized_cpes (db_store conn') =
                filter (\<lambda>r. FetchType (snd r) \<noteq> fetchType) (categorized_cpes (db_store conn))) \<and>
           tables (db_store conn') = tables (db_store conn) \<and>
           fetch_meta (db_store conn') = fetch_meta (db_store conn) \<and>
           db_trace conn' = db_trace conn @
             [(SBegin, None), (SSelectIDs fetchType, None)] @
             map (\<lambda>p. (SDeleteIDs p, None)) (parts 10000 (old_ids fetchType (db_store conn))) @
             [(SCommit, None)]"
proof -
  let ?ids = "old_ids fetchType (db_store conn)"
  let ?c0 = "record_stmt SBegin None conn"
  let ?t1 = "(Begin conn)\<lparr>tx_conn := advance [(SSelectIDs fetchType, None)] ?c0\<rparr>"
  have no: "next_outcome conn = None"
    using ok by (cases "db_faults conn") (auto simp: next_outcome_def)
  have no0: "next_outcome ?c0 = None"
    using no by (simp add: next_outcome_def record_stmt_def)
  have find: "tx_Find_ids fetchType (Begin conn) = ((?ids, int (length ?ids), None), ?t1)"
    using no0 by (simp add: tx_Find_ids_def tx_issue_def issue_advance Begin_def old_ids_def)
  have fl: "\<forall>f \<in> set (db_faults (tx_conn ?t1)). f = None"
    using ok by (auto simp: advance_def record_stmt_def dest: in_set_dropD)
  have b3: "int (length ?ids) + 10000 \<le> 2 ^ 63"
    using b2 length_old_ids[of fetchType "db_store conn"] by simp
  have del: "delete_phase ?ids (int (length ?ids)) ?t1 =
     Done None \<lparr>tx_conn = advance (map (\<lambda>p. (SDeleteIDs p, None)) (parts 10000 ?ids)) (tx_conn ?t1),
                work = (work ?t1)\<lparr>categorized_cpes :=
                         filter (\<lambda>r. fst r \<notin> set (concat (parts 10000 ?ids))) (categorized_cpes (work ?t1))\<rparr>\<rparr>"
    unfolding delete_phase_parts[OF b3] by (rule for_parts_delete_ok[OF fl])
  have ins: "\<And>t. insert_phase [] t = Done None t"
    by (simp add: insert_phase_parts)
  have cc: "concat (parts 10000 ?ids) = ?ids" by (simp add: parts_concat)
  have body: "replace_body (Begin conn) fetchType [] =
     Done None \<lparr>tx_conn = advance (map (\<lambda>p. (SDeleteIDs p, None)) (parts 10000 ?ids)) (tx_conn ?t1),
                work = (work ?t1)\<lparr>categorized_cpes :=
                         filter (\<lambda>r. fst r \<notin> set ?ids) (categorized_cpes (work ?t1))\<rparr>\<rparr>"
    using del by (simp add: replace_body_def find ins cc)
  have run: "InsertCpes conn fetchType [] =
     Ret None (Commit \<lparr>tx_conn = advance (map (\<lambda>p. (SDeleteIDs p, None)) (parts 10000 ?ids)) (tx_conn ?t1),
                work = (work ?t1)\<lparr>categorized_cpes :=
                         filter (\<lambda>r. fst r \<notin> set ?ids) (categorized_cpes (work ?t1))\<rparr>\<rparr>)"
    by (simp add: InsertCpes_def deleteAndInsertCpes_def body deferred_def)
  have fl2: "set (db_faults (advance (map (\<lambda>p. (SDeleteIDs p, None)) (parts 10000 ?ids)) (tx_conn ?t1)))
      \<subseteq> {None}"
    using ok by (auto simp: advance_def record_stmt_def dest!: in_set_dropD)
  have cm: "next_outcome (advance (map (\<lambda>p. (SDeleteIDs p, None)) (parts 10000 ?ids)) (tx_conn ?t1)) = None"
    by (rule all_None_next_outcome[OF fl2])
  let ?t2 = "\<lparr>tx_conn = advance (map (\<lambda>p. (SDeleteIDs p, None)) (parts 10000 ?ids)) (tx_conn ?t1),
                work = (work ?t1)\<lparr>categorized_cpes :=
                         filter (\<lambda>r. fst r \<notin> set ?ids) (categorized_cpes (work ?t1))\<rparr>\<rparr>"
  have commit: "Commit ?t2 = (advance [(SCommit, None)] (tx_conn ?t2))\<lparr>db_store := work ?t2\<rparr>"
    using cm by (intro Commit_ok) simp
  show ?thesis
    unfolding run commit
    using old_ids_removed[of fetchType "db_store conn"] old_ids_distinct[of "db_store conn" fetchType]
    by (simp add: record_stmt_def advance_def Begin_def)
qed


theorem InsertCpes_empty_witness:
  "set (db_faults (example_conn [])) \<subseteq> {None} \<and>
   int (length (categorized_cpes (db_store (example_conn [])))) + 10000 \<le> 2 ^ 63 \<and>
   InsertCpes (example_conn []) ''nvd'' [] =
     Ret None \<lparr>db_store = example_store\<lparr>categorized_cpes := [(2, cpe_c)]\<rparr>, db_faults = [],
               db_trace = [(SBegin, None), (SSelectIDs ''nvd'', None), (SDeleteIDs [1, 3], None),
                           (SCommit, None)]\<rparr> \<and>
   (\<exists>conn'. InsertCpes (example_conn []) ''nvd'' [] = Ret None conn' \<and>
      categorized_cpes (db_store conn') =
        filter (\<lambda>r. fst r \<notin> set (old_ids ''nvd'' (db_store (example_conn []))))
          (categorized_cpes (db_store (example_conn []))))"
proof -
  let ?c = "example_conn []"
  have h1: "set (db_faults ?c) \<subseteq> {None}" by (simp add: example_conn_def)
  have h2: "int (length (categorized_cpes (db_store ?c))) + 10000 \<le> 2 ^ 63"
    by (simp add: example_conn_def example_store_def)
  have ev: "InsertCpes ?c ''nvd'' [] =
     Ret None \<lparr>db_store = example_store\<lparr>categorized_cpes := [(2, cpe_c)]\<rparr>, db_faults = [],
               db_trace = [(SBegin, None), (SSelectIDs ''nvd'', None), (SDeleteIDs [1, 3], None),
                           (SCommit, None)]\<rparr>"
    by code_simp
  from InsertCpes_empty[OF h1 h2, of "''nvd''"] obtain conn' where
    "InsertCpes ?c ''nvd'' [] = Ret None conn'"
    "categorized_cpes (db_store conn') =
        filter (\<lambda>r. fst r \<notin> set (old_ids ''nvd'' (db_store ?c))) (categorized_cpes (db_store ?c))"
    by blast
  then have "\<exists>conn'. InsertCpes ?c ''nvd'' [] = Ret None conn' \<and>
      categorized_cpes (db_store conn') =
        filter (\<lambda>r. fst r \<notin> set (old_ids ''nvd'' (db_store ?c))) (categorized_cpes (db_store ?c))"
    by blast
  with h1 h2 ev show ?thesis by blast
qed


section \<open>Properties of the lookups, the metadata and the open sequence\<close>

lemma split_results_filter:
  "split_results rs = (map fst (filter (\<lambda>x. \<not> snd x) rs), map fst (filter snd rs))"
  by (induction rs) auto

lemma distinct_fst_same_snd:
  assumes "distinct xs"
  shows "distinct (map fst (filter (\<lambda>x. snd x = b) xs))"
proof -
  have "inj_on fst (set (filter (\<lambda>x. snd x = b) xs))"
    by (auto simp: inj_on_def)
  then show ?thesis using assms by (simp add: distinct_map)
qed

lemma wildcard_match_literal:
  "CHR ''%'' \<notin> set p \<Longrightarrow> CHR ''_'' \<notin> set p \<Longrightarrow> wildcard_match p s \<longleftrightarrow> p = s"
  by (induction p s rule: wildcard_match.induct) auto

lemma wildcard_match_any: "wildcard_match ''%'' s"
  by (induction s) auto

lemma sqlite3_like_folds_case: "sqlite3_like ''NTP'' ''ntp'' \<and> sqlite3_like ''ntp'' ''NTP''"
  by code_simp

text \<open>
  Claim C7. For every vendor pattern and product pattern, and whatever \<open>LIKE\<close> operator
  the backend has, when the backend answers the query \<open>GetCpesByVendorProduct\<close> returns
  no error and two lists: the first holds the \<open>cpeURI\<close> of exactly the stored entries
  whose vendor and product match the patterns under that \<open>LIKE\<close> and whose \<open>deprecated\<close>
  flag is false, the second those whose flag is true. Neither list repeats a \<open>cpeURI\<close>, and
  the store is not changed.
\<close>

theorem GetCpesByVendorProduct_partitions:
  assumes "next_outcome c = None"
  shows "\<exists>cpeURIs deprecated c'.
           GetCpesByVendorProduct like c vendor product = ((cpeURIs, deprecated, None), c') \<and>
           set cpeURIs =
             (\<lambda>r. CpeURI (snd r)) `
               {r \<in> set (matching like vendor product (db_store c)). \<not> Deprecated (snd r)} \<and>
           set deprecated =
             (\<lambda>r. CpeURI (snd r)) `
               {r \<in> set (matching like vendor product (db_store c)). Deprecated (snd r)} \<and>
           distinct cpeURIs \<and> distinct deprecated \<and>
           db_store c' = db_store c"
proof -
  let ?found = "remdups (map (\<lambda>r. (CpeURI (snd r), Deprecated (snd r)))
      (matching like vendor product (db_store c)))"
  let ?c' = "c\<lparr>db_faults := tl (db_faults c),
      db_trace := db_trace c @ [(SFindCpes vendor product, None)]\<rparr>"
  have find: "Find_cpes like vendor product c = ((?found, None), ?c')"
    using assms by (simp add: Find_cpes_def issue_def matching_def)
  have run: "GetCpesByVendorProduct like c vendor product =
      ((map fst (filter (\<lambda>x. \<not> snd x) ?found), map fst (filter snd ?found), None), ?c')"
    by (simp add: GetCpesByVendorProduct_def find split_results_filter)
  have d1: "distinct (map fst (filter (\<lambda>x. \<not> snd x) ?found))"
    using distinct_fst_same_snd[of ?found False] by simp
  have d2: "distinct (map fst (filter snd ?found))"
    using distinct_fst_same_snd[of ?found True] by simp
  have s1: "set (map fst (filter (\<lambda>x. \<not> snd x) ?found)) =
      (\<lambda>r. CpeURI (snd r)) `
        {r \<in> set (matching like vendor product (db_store c)). \<not> Deprecated (snd r)}"
    by force
  have s2: "set (map fst (filter snd ?found)) =
      (\<lambda>r. CpeURI (snd r)) `
        {r \<in> set (matching like vendor product (db_store c)). Deprecated (snd r)}"
    by force
  show ?thesis
    unfolding run using d1 d2 s1 s2 by simp
qed

theorem GetCpesByVendorProduct_partitions_witness:
  "next_outcome (example_conn []) = None \<and>
   fst (GetCpesByVendorProduct sqlite3_like (example_conn []) ''ntp'' ''ntp'') =
     ([''cpe:/a:ntp:ntp:4.2.8''], [''cpe:/a:ntp:ntp:4.2.7''], None) \<and>
   fst (GetCpesByVendorProduct sqlite3_like (example_conn []) ''NTP'' ''NTP'') =
     ([''cpe:/a:ntp:ntp:4.2.8''], [''cpe:/a:ntp:ntp:4.2.7''], None) \<and>
   fst (GetCpesByVendorProduct sqlite3_like (example_conn []) ''%'' ''_t%'') =
     ([''cpe:/a:ntp:ntp:4.2.8'', ''cpe:/a:apache:struts:2.5''], [''cpe:/a:ntp:ntp:4.2.7''], None) \<and>
   fst (GetCpesByVendorProduct wildcard_match (example_conn []) ''NTP'' ''NTP'') = ([], [], None) \<and>
   (\<exists>cpeURIs deprecated c'.
      GetCpesByVendorProduct sqlite3_like (example_conn []) ''NTP'' ''NTP'' =
        ((cpeURIs, deprecated, None), c') \<and>
      set cpeURIs =
        (\<lambda>r. CpeURI (snd r)) `
          {r \<in> set (matching sqlite3_like ''NTP'' ''NTP'' (db_store (example_conn []))).
           \<not> Deprecated (snd r)} \<and>
      set deprecated =
        (\<lambda>r. CpeURI (snd r)) `
          {r \<in> set (matching sqlite3_like ''NTP'' ''NTP'' (db_store (example_conn []))).
           Deprecated (snd r)} \<and>
      distinct cpeURIs \<and> distinct deprecated)"
proof -
  have h: "next_outcome (example_conn []) = None"
    by (simp add: next_outcome_def example_conn_def)
  have e1: "fst (GetCpesByVendorProduct sqlite3_like (example_conn []) ''ntp'' ''ntp'') =
     ([''cpe:/a:ntp:ntp:4.2.8''], [''cpe:/a:ntp:ntp:4.2.7''], None)"
    by code_simp
  have e2: "fst (GetCpesByVendorProduct sqlite3_like (example_conn []) ''NTP'' ''NTP'') =
     ([''cpe:/a:ntp:ntp:4.2.8''], [''cpe:/a:ntp:ntp:4.2.7''], None)"
    by code_simp
  have e3: "fst (GetCpesByVendorProduct sqlite3_like (example_conn []) ''%'' ''_t%'') =
     ([''cpe:/a:ntp:ntp:4.2.8'', ''cpe:/a:apache:struts:2.5''], [''cpe:/a:ntp:ntp:4.2.7''], None)"
    by code_simp
  have e4: "fst (GetCpesByVendorProduct wildcard_match (example_conn []) ''NTP'' ''NTP'') =
     ([], [], None)"
    by code_simp
  from GetCpesByVendorProduct_partitions[OF h, of sqlite3_like "''NTP''" "''NTP''"]
  have "\<exists>cpeURIs deprecated c'.
      GetCpesByVendorProduct sqlite3_like (example_conn []) ''NTP'' ''NTP'' =
        ((cpeURIs, deprecated, None), c') \<and>
      set cpeURIs =
        (\<lambda>r. CpeURI (snd r)) `
          {r \<in> set (matching sqlite3_like ''NTP'' ''NTP'' (db_store (example_conn []))).
           \<not> Deprecated (snd r)} \<and>
      set deprecated =
        (\<lambda>r. CpeURI (snd r)) `
          {r \<in> set (matching sqlite3_like ''NTP'' ''NTP'' (db_store (example_conn []))).
           Deprecated (snd r)} \<and>
      distinct cpeURIs \<and> distinct deprecated"
    by blast
  with h e1 e2 e3 e4 show ?thesis by blast
qed

lemma GetCpesByVendorProduct_swallows:
  assumes "next_outcome c = Some e" and "\<not> errors_Is_ErrRecordNotFound e"
  shows "fst (GetCpesByVendorProduct like c vendor product) = ([], [], None)"
  using assms by (simp add: GetCpesByVendorProduct_def Find_cpes_def issue_def errors_Is_def)

lemma GetCpesByVendorProduct_not_found:
  assumes "next_outcome c = Some e" and "errors_Is_ErrRecordNotFound e"
  shows "fst (GetCpesByVendorProduct like c vendor product) =
    ([], [], Some (ErrorString (''Failed to select results. err: '' @ Error e)))"
  using assms by (simp add: GetCpesByVendorProduct_def Find_cpes_def issue_def errors_Is_def)

lemma GetVendorProducts_not_found:
  assumes "next_outcome c = Some e" and "errors_Is_ErrRecordNotFound e"
  shows "fst (GetVendorProducts c) =
    ([], Some (ErrorString (''Failed to select results. err: '' @ Error e)))"
  using assms by (simp add: GetVendorProducts_def Find_vendor_products_def issue_def errors_Is_def)

lemma GetVendorProducts_other_error:
  assumes "next_outcome c = Some e" and "\<not> errors_Is_ErrRecordNotFound e"
  shows "fst (GetVendorProducts c) = ([], Some e)"
  using assms by (simp add: GetVendorProducts_def Find_vendor_products_def issue_def errors_Is_def)

text \<open>
  Claim C3 says that a record-not-found answer gives an empty result with no error and
  that every other backend error reaches the caller. Both lookups test
  \<^verbatim>\<open>err != nil && errors.Is(err, gorm.ErrRecordNotFound)\<close>, where \<open>deleteAndInsertCpes\<close>
  and \<open>GetFetchMeta\<close> test \<^verbatim>\<open>!errors.Is(...)\<close>. So \<open>GetCpesByVendorProduct\<close> returns two
  empty lists and no error when the query fails with a refused connection, and an error
  when the backend answers record-not-found; \<open>GetVendorProducts\<close> also returns an error
  for record-not-found (it does return the other errors, through its named result).
\<close>

theorem lookup_error_handling_inverted:
  "fst (GetCpesByVendorProduct sqlite3_like
          (example_conn [Some (BackendError ''connection refused'')]) ''ntp'' ''ntp'') =
     ([], [], None) \<and>
   fst (GetCpesByVendorProduct sqlite3_like (example_conn [Some ErrRecordNotFound]) ''ntp'' ''ntp'') =
     ([], [], Some (ErrorString ''Failed to select results. err: record not found'')) \<and>
   fst (GetVendorProducts (example_conn [Some ErrRecordNotFound])) =
     ([], Some (ErrorString ''Failed to select results. err: record not found'')) \<and>
   fst (GetVendorProducts (example_conn [Some (BackendError ''connection refused'')])) =
     ([], Some (BackendError ''connection refused''))"
  by (simp add: GetCpesByVendorProduct_swallows GetCpesByVendorProduct_not_found
      GetVendorProducts_not_found GetVendorProducts_other_error next_outcome_def example_conn_def)

text \<open>
  Claim C5. For every \<open>FetchMeta\<close> the caller passes, the value \<open>UpsertFetchMeta\<close> hands
  to \<open>Save\<close> (and leaves in the caller's struct) has the build's revision and the latest
  schema version in \<open>GoCPEDictRevision\<close> and \<open>SchemaVersion\<close>, whatever the caller had put
  there, and the caller's \<open>LastFetchedAt\<close>; when \<open>Save\<close> succeeds this is the stored row,
  and when it fails the store is unchanged.
\<close>

theorem UpsertFetchMeta_stamps:
  "\<exists>err c'.
     UpsertFetchMeta b c fetchMeta =
       ((err, fetchMeta\<lparr>GoCPEDictRevision := Revision b, SchemaVersion := LatestSchemaVersion b\<rparr>), c') \<and>
     err = next_outcome c \<and>
     db_trace c' = db_trace c @
       [(SSaveFetchMeta (fetchMeta\<lparr>GoCPEDictRevision := Revision b,
                                   SchemaVersion := LatestSchemaVersion b\<rparr>), err)] \<and>
     (err = None \<longrightarrow>
        fetch_meta (db_store c') =
          Some \<lparr>GoCPEDictRevision = Revision b, SchemaVersion = LatestSchemaVersion b,
                LastFetchedAt = LastFetchedAt fetchMeta\<rparr>) \<and>
     (err \<noteq> None \<longrightarrow> db_store c' = db_store c)"
  by (cases "next_outcome c")
    (simp_all add: UpsertFetchMeta_def Save_fetch_meta_def issue_def Let_def)

theorem UpsertFetchMeta_stamps_witness:
  "fst (UpsertFetchMeta example_build (example_conn []) example_meta) =
     (None, \<lparr>GoCPEDictRevision = ''4f1b2c3'', SchemaVersion = 2, LastFetchedAt = 1700000000\<rparr>) \<and>
   fetch_meta (db_store (snd (UpsertFetchMeta example_build (example_conn []) example_meta))) =
     Some \<lparr>GoCPEDictRevision = ''4f1b2c3'', SchemaVersion = 2, LastFetchedAt = 1700000000\<rparr>"
proof -
  from UpsertFetchMeta_stamps[of example_build "example_conn []" example_meta]
  obtain err c' where
    r: "UpsertFetchMeta example_build (example_conn []) example_meta =
       ((err, example_meta\<lparr>GoCPEDictRevision := Revision example_build,
                           SchemaVersion := LatestSchemaVersion example_build\<rparr>), c')"
    and e: "err = next_outcome (example_conn [])"
    and s: "err = None \<longrightarrow>
        fetch_meta (db_store c') =
          Some \<lparr>GoCPEDictRevision = Revision example_build,
                SchemaVersion = LatestSchemaVersion example_build,
                LastFetchedAt = LastFetchedAt example_meta\<rparr>"
    by auto
  have "err = None" using e by (simp add: next_outcome_def example_conn_def)
  with r s show ?thesis by (simp add: example_build_def example_meta_def)
qed

text \<open>
  Claim C8. When no metadata row is stored (and the backend answers the query),
  \<open>GetFetchMeta\<close> returns a fresh \<open>FetchMeta\<close> with the build's revision and the latest
  schema version, and no error; a stored row is returned as it is. An error that
  \<open>GetFetchMeta\<close> returns is never a record-not-found error: it is the backend's error,
  returned with no \<open>FetchMeta\<close>. Every backend error other than record-not-found is
  returned; a record-not-found error gives the fresh \<open>FetchMeta\<close>. The store is not
  changed.
\<close>

theorem GetFetchMeta_not_found:
  "(next_outcome c = None \<and> fetch_meta (db_store c) = None \<longrightarrow>
      fst (GetFetchMeta b c) =
        (Some \<lparr>GoCPEDictRevision = Revision b, SchemaVersion = LatestSchemaVersion b,
               LastFetchedAt = zero_time\<rparr>, None)) \<and>
   (\<forall>m. next_outcome c = None \<and> fetch_meta (db_store c) = Some m \<longrightarrow>
      fst (GetFetchMeta b c) = (Some m, None)) \<and>
   (\<forall>e. snd (fst (GetFetchMeta b c)) = Some e \<longrightarrow>
      \<not> errors_Is_ErrRecordNotFound e \<and> next_outcome c = Some e \<and> fst (fst (GetFetchMeta b c)) = None) \<and>
   (\<forall>e. next_outcome c = Some e \<and> \<not> errors_Is_ErrRecordNotFound e \<longrightarrow>
      fst (GetFetchMeta b c) = (None, Some e)) \<and>
   (\<forall>e. next_outcome c = Some e \<and> errors_Is_ErrRecordNotFound e \<longrightarrow>
      fst (GetFetchMeta b c) =
        (Some \<lparr>GoCPEDictRevision = Revision b, SchemaVersion = LatestSchemaVersion b,
               LastFetchedAt = zero_time\<rparr>, None)) \<and>
   db_store (snd (GetFetchMeta b c)) = db_store c"
  by (cases "next_outcome c"; cases "fetch_meta (db_store c)")
    (auto simp: GetFetchMeta_def Take_fetch_meta_def Let_def errors_Is_def)

theorem GetFetchMeta_not_found_witness:
  "next_outcome (example_conn []) = None \<and>
   fetch_meta (db_store (example_conn [])) = None \<and>
   fst (GetFetchMeta example_build (example_conn [])) =
     (Some \<lparr>GoCPEDictRevision = ''4f1b2c3'', SchemaVersion = 2, LastFetchedAt = 0\<rparr>, None) \<and>
   next_outcome stored_conn = None \<and>
   fetch_meta (db_store stored_conn) = Some example_meta \<and>
   fst (GetFetchMeta example_build stored_conn) = (Some example_meta, None) \<and>
   next_outcome (example_conn [Some (BackendError ''disk I/O error'')]) =
     Some (BackendError ''disk I/O error'') \<and>
   \<not> errors_Is_ErrRecordNotFound (BackendError ''disk I/O error'') \<and>
   fst (GetFetchMeta example_build (example_conn [Some (BackendError ''disk I/O error'')])) =
     (None, Some (BackendError ''disk I/O error'')) \<and>
   next_outcome (example_conn [Some ErrRecordNotFound]) = Some ErrRecordNotFound \<and>
   errors_Is_ErrRecordNotFound ErrRecordNotFound \<and>
   fst (GetFetchMeta example_build (example_conn [Some ErrRecordNotFound])) =
     (Some \<lparr>GoCPEDictRevision = ''4f1b2c3'', SchemaVersion = 2, LastFetchedAt = 0\<rparr>, None)"
proof -
  have h1: "next_outcome (example_conn []) = None"
    by (simp add: next_outcome_def example_conn_def)
  have h2: "fetch_meta (db_store (example_conn [])) = None"
    by (simp add: example_conn_def example_store_def)
  have s1: "next_outcome stored_conn = None"
    by (simp add: next_outcome_def stored_conn_def)
  have s2: "fetch_meta (db_store stored_conn) = Some example_meta"
    by (simp add: stored_conn_def)
  have h3: "next_outcome (example_conn [Some (BackendError ''disk I/O error'')]) =
     Some (BackendError ''disk I/O error'')"
    by (simp add: next_outcome_def example_conn_def)
  have h4: "\<not> errors_Is_ErrRecordNotFound (BackendError ''disk I/O error'')" by simp
  have n1: "next_outcome (example_conn [Some ErrRecordNotFound]) = Some ErrRecordNotFound"
    by (simp add: next_outcome_def example_conn_def)
  have n2: "errors_Is_ErrRecordNotFound ErrRecordNotFound" by simp
  from GetFetchMeta_not_found[of "example_conn []" example_build] h1 h2
  have r1: "fst (GetFetchMeta example_build (example_conn [])) =
     (Some \<lparr>GoCPEDictRevision = ''4f1b2c3'', SchemaVersion = 2, LastFetchedAt = 0\<rparr>, None)"
    by (simp add: example_build_def zero_time_def)
  from GetFetchMeta_not_found[of stored_conn example_build] s1 s2
  have r2: "fst (GetFetchMeta example_build stored_conn) = (Some example_meta, None)"
    by blast
  from GetFetchMeta_not_found[of "example_conn [Some (BackendError ''disk I/O error'')]" example_build]
    h3 h4
  have r3: "fst (GetFetchMeta example_build (example_conn [Some (BackendError ''disk I/O error'')])) =
     (None, Some (BackendError ''disk I/O error''))"
    by blast
  from GetFetchMeta_not_found[of "example_conn [Some ErrRecordNotFound]" example_build] n1 n2
  have r4: "fst (GetFetchMeta example_build (example_conn [Some ErrRecordNotFound])) =
     (Some \<lparr>GoCPEDictRevision = ''4f1b2c3'', SchemaVersion = 2, LastFetchedAt = 0\<rparr>, None)"
    by (simp add: example_build_def zero_time_def)
  from h1 h2 r1 s1 s2 r2 h3 h4 r3 n1 n2 r4 show ?thesis by blast
qed

text \<open>
  Claim C9. When \<open>OpenDB\<close> runs for the sqlite3 dialect and \<open>gorm.Open\<close> fails with \<open>e\<close>:
  if \<open>e\<close> is a \<open>sqlite3.Error\<close> the call returns the open error with \<open>locked\<close> true
  exactly for the codes \<open>ErrLocked\<close> and \<open>ErrBusy\<close>; if \<open>e\<close> is a value of any other
  type the call panics.
\<close>

theorem OpenDB_sqlite3_type_assertion:
  assumes "r_name r = dialectSqlite3"
    and "opener dialectSqlite3 dbPath debugSQL = Inl e"
  shows "(\<forall>code text. e = Sqlite3Error code text \<longrightarrow>
            OpenDB opener r dbType dbPath debugSQL =
              Ret (code = sqlite3_ErrLocked \<or> code = sqlite3_ErrBusy,
                   Some (ErrorString (open_msg dbType dbPath e))) (r\<lparr>r_conn := None\<rparr>)) \<and>
         ((\<forall>code text. e \<noteq> Sqlite3Error code text) \<longrightarrow>
            OpenDB opener r dbType dbPath debugSQL = Panic (r\<lparr>r_conn := None\<rparr>))"
  using assms by (cases e) (simp_all add: OpenDB_def Let_def)

theorem OpenDB_sqlite3_type_assertion_witness:
  "r_name \<lparr>r_name = ''sqlite3'', r_conn = None\<rparr> = dialectSqlite3 \<and>
   locked_open dialectSqlite3 ''cpe.sqlite3'' False = Inl (Sqlite3Error 5 ''database is locked'') \<and>
   OpenDB locked_open \<lparr>r_name = ''sqlite3'', r_conn = None\<rparr> ''sqlite3'' ''cpe.sqlite3'' False =
     Ret (True, Some (ErrorString
       ''Failed to open DB. dbtype: sqlite3, dbpath: cpe.sqlite3, err: database is locked''))
       \<lparr>r_name = ''sqlite3'', r_conn = None\<rparr> \<and>
   failing_open dialectSqlite3 ''cpe.sqlite3'' False =
     Inl (BackendError ''unable to open database file'') \<and>
   OpenDB failing_open \<lparr>r_name = ''sqlite3'', r_conn = None\<rparr> ''sqlite3'' ''cpe.sqlite3'' False =
     Panic \<lparr>r_name = ''sqlite3'', r_conn = None\<rparr>"
proof -
  let ?r = "\<lparr>r_name = ''sqlite3'', r_conn = None\<rparr>"
  have h: "r_name ?r = dialectSqlite3" by (simp add: dialectSqlite3_def)
  have o1: "locked_open dialectSqlite3 ''cpe.sqlite3'' False =
      Inl (Sqlite3Error 5 ''database is locked'')"
    by (simp add: locked_open_def)
  have o2: "failing_open dialectSqlite3 ''cpe.sqlite3'' False =
      Inl (BackendError ''unable to open database file'')"
    by (simp add: failing_open_def)
  from OpenDB_sqlite3_type_assertion[where opener = locked_open and dbType = "''sqlite3''", OF h o1]
  have r1: "OpenDB locked_open ?r ''sqlite3'' ''cpe.sqlite3'' False =
     Ret (True, Some (ErrorString
       ''Failed to open DB. dbtype: sqlite3, dbpath: cpe.sqlite3, err: database is locked'')) ?r"
    by (simp add: sqlite3_ErrBusy_def sqlite3_ErrLocked_def open_msg_def)
  from OpenDB_sqlite3_type_assertion[where opener = failing_open and dbType = "''sqlite3''", OF h o2]
  have r2: "OpenDB failing_open ?r ''sqlite3'' ''cpe.sqlite3'' False = Panic ?r"
    by simp
  from h o1 o2 r1 r2 show ?thesis by blast
qed







end
